theory Spec2Isabelle
  imports Main "HOL-Library.Word" "HOL-Library.Monad_Syntax" "HOL-Library.Code_Target_Nat"
begin

unbundle bit_operations_syntax

section \<open>Background control (background.c)\<close>

text \<open>
  The background manager keeps a singly linked list of \<open>BackgroundNode\<close>s, new nodes at
  the head, and two pointers into it, \<open>defaultBackground\<close> and \<open>lastBackground\<close>.
  The list is a HOL list in the order of the \<open>next\<close> pointers. The two pointers are only
  ever dereferenced to read fields of the node they point to, a node is written only by
  \<open>StartupBackgrounds\<close> (its \<open>pixel\<close> and \<open>pixmap\<close>) before \<open>defaultBackground\<close> is
  set to it, and \<open>type\<close> and \<open>value\<close> are never written after \<open>SetBackground\<close>; so each
  pointer is modelled by the node it points to, \<open>None\<close> for \<open>NULL\<close>.

  Calls that leave the module (Xlib requests on the root window, \<open>RunCommand\<close>, the
  gradient and icon drawing) are appended to the log \<open>calls\<close> of the state, oldest first.
  \<open>ParseColor\<close> (color.c), the geometry of the root window (main.c) and the icon loader
  as background.c calls it are not part of the sources; they are fields of the state that
  no function of the module writes.
\<close>

datatype BackgroundType =
    BACKGROUND_SOLID
  | BACKGROUND_GRADIENT
  | BACKGROUND_COMMAND
  | BACKGROUND_IMAGE

text \<open>
  \<open>Allocate\<close> does not clear the node, so \<open>pixel\<close> and \<open>pixmap\<close> hold nothing defined
  until a loader assigns them: \<open>None\<close> is a field never assigned. The X resource
  \<open>None\<close> is the identifier 0.
\<close>

record BackgroundNode =
  desktop :: int
  bg_type :: BackgroundType
  bg_value :: string
  pixel :: "int option"
  pixmap :: "nat option"

definition XNone :: nat where
  "XNone = 0"

datatype attr_flag = CWBackPixmap | CWBackPixel | CWBorderPixel

text \<open>The fields of \<open>XSetWindowAttributes\<close> that \<open>LoadBackground\<close> assigns.\<close>

record XSetWindowAttributes =
  background_pixmap :: "nat option"
  background_pixel :: "int option"
  border_pixmap :: "nat option"

datatype native_call =
    XChangeWindowAttributes "attr_flag list" XSetWindowAttributes
  | XClearWindow
  | RunCommand string
  | XCreatePixmap nat int int int
  | XSetForeground int
  | XFillRectangle nat int int int int
  | DrawHorizontalGradient nat int int int int int int
  | PutIcon string nat int int int int
  | DestroyLoadedIcon string
  | Warning string

record bg_state =
  backgrounds :: "BackgroundNode list"
  defaultBackground :: "BackgroundNode option"
  lastBackground :: "BackgroundNode option"
  calls :: "native_call list"
  next_pixmap :: nat
  ParseColor :: "string \<Rightarrow> int"
  icon_exists :: "string \<Rightarrow> bool"
  rootWidth :: int
  rootHeight :: int
  rootDepth :: int

definition InitializeBackgrounds :: "bg_state \<Rightarrow> bg_state" where
  "InitializeBackgrounds s =
     s\<lparr>backgrounds := [], defaultBackground := None, lastBackground := None\<rparr>"

definition emit :: "native_call list \<Rightarrow> bg_state \<Rightarrow> bg_state" where
  "emit cs s = s\<lparr>calls := calls s @ cs\<rparr>"

text \<open>\<open>JXCreatePixmap\<close> on the root window: the server hands out a fresh identifier.\<close>

definition JXCreatePixmap_root :: "bg_state \<Rightarrow> nat \<times> bg_state" where
  "JXCreatePixmap_root s =
     (let p = Suc (next_pixmap s)
      in (p, emit [XCreatePixmap p (rootWidth s) (rootHeight s) (rootDepth s)]
               (s\<lparr>next_pixmap := p\<rparr>)))"

definition LoadSolidBackground :: "BackgroundNode \<Rightarrow> bg_state \<Rightarrow> BackgroundNode \<times> bg_state" where
  "LoadSolidBackground bp s = (bp\<lparr>pixel := Some (ParseColor s (bg_value bp))\<rparr>, s)"

definition LoadGradientBackground :: "BackgroundNode \<Rightarrow> bg_state \<Rightarrow> BackgroundNode \<times> bg_state" where
  "LoadGradientBackground bp s =
     (if CHR '':'' \<notin> set (bg_value bp) then (bp\<lparr>pixmap := Some XNone\<rparr>, s)
      else
        let color1 = ParseColor s (takeWhile (\<lambda>c. c \<noteq> CHR '':'') (bg_value bp));
            color2 = ParseColor s (tl (dropWhile (\<lambda>c. c \<noteq> CHR '':'') (bg_value bp)));
            (p, s1) = JXCreatePixmap_root s
        in (bp\<lparr>pixmap := Some p\<rparr>,
            if color1 = color2
            then emit [XSetForeground color1,
                       XFillRectangle p 0 0 (rootWidth s) (rootHeight s)] s1
            else emit [DrawHorizontalGradient p color1 color2 0 0
                         (rootWidth s) (rootHeight s)] s1))"

text \<open>
  background.c calls the icon module as \<open>LoadNamedIcon(value)\<close> and
  \<open>PutIcon(ip, pixmap, 0, 0, rootWidth, rootHeight)\<close>, which are not the signatures
  icon.c defines; the icon calls are therefore logged as calls that leave the module,
  and whether the icon is found is read from \<open>icon_exists\<close>.
\<close>

definition LoadImageBackground :: "BackgroundNode \<Rightarrow> bg_state \<Rightarrow> BackgroundNode \<times> bg_state" where
  "LoadImageBackground bp s =
     (if \<not> icon_exists s (bg_value bp)
      then (bp\<lparr>pixmap := Some XNone\<rparr>, emit [Warning (bg_value bp)] s)
      else
        let (p, s1) = JXCreatePixmap_root s
        in (bp\<lparr>pixmap := Some p\<rparr>,
            emit [XSetForeground 0,
                  XFillRectangle p 0 0 (rootWidth s) (rootHeight s),
                  PutIcon (bg_value bp) p 0 0 (rootWidth s) (rootHeight s),
                  DestroyLoadedIcon (bg_value bp)] s1))"

text \<open>
  The loop of \<open>StartupBackgrounds\<close>: each node is materialized in list order, and a node
  of desktop \<open>-1\<close> becomes \<open>defaultBackground\<close> when the loop reaches it. The function
  returns the nodes as the loaders left them.
\<close>

fun StartupBackgrounds_loop ::
  "BackgroundNode list \<Rightarrow> bg_state \<Rightarrow> BackgroundNode list \<times> bg_state" where
  "StartupBackgrounds_loop [] s = ([], s)"
| "StartupBackgrounds_loop (bp # rest) s =
     (let (bp', s1) =
            (case bg_type bp of
               BACKGROUND_SOLID \<Rightarrow> LoadSolidBackground bp s
             | BACKGROUND_GRADIENT \<Rightarrow> LoadGradientBackground bp s
             | BACKGROUND_COMMAND \<Rightarrow> (bp, s)
             | BACKGROUND_IMAGE \<Rightarrow> LoadImageBackground bp s);
          s2 = (if desktop bp' = -1 then s1\<lparr>defaultBackground := Some bp'\<rparr> else s1);
          (rest', s3) = StartupBackgrounds_loop rest s2
      in (bp' # rest', s3))"

definition StartupBackgrounds :: "bg_state \<Rightarrow> bg_state" where
  "StartupBackgrounds s =
     (let (bs, s') = StartupBackgrounds_loop (backgrounds s) s
      in s'\<lparr>backgrounds := bs\<rparr>)"

text \<open>
  \<open>SetBackground(desktop, type, value)\<close>: \<open>type\<close> and \<open>value\<close> may be \<open>NULL\<close>
  (\<open>None\<close>). A missing value and an unknown type only warn.
\<close>

definition SetBackground :: "int \<Rightarrow> string option \<Rightarrow> string option \<Rightarrow> bg_state \<Rightarrow> bg_state" where
  "SetBackground d ty val s =
     (case val of
        None \<Rightarrow> emit [Warning ''no value specified for background''] s
      | Some v \<Rightarrow>
         (case (if ty = None \<or> ty = Some ''solid'' then Some BACKGROUND_SOLID
                else if ty = Some ''gradient'' then Some BACKGROUND_GRADIENT
                else if ty = Some ''command'' then Some BACKGROUND_COMMAND
                else if ty = Some ''image'' then Some BACKGROUND_IMAGE
                else None) of
            None \<Rightarrow> emit [Warning ''invalid background type''] s
          | Some bgType \<Rightarrow>
              s\<lparr>backgrounds :=
                  \<lparr>desktop = d, bg_type = bgType, bg_value = v,
                   pixel = None, pixmap = None\<rparr> # backgrounds s\<rparr>))"

text \<open>
  The first part of \<open>LoadBackground\<close>: the first node of the list for the desktop,
  and \<open>defaultBackground\<close> when the loop ends with \<open>bp == NULL\<close>.
\<close>

definition FindBackground :: "int \<Rightarrow> bg_state \<Rightarrow> BackgroundNode option" where
  "FindBackground d s =
     (case find (\<lambda>bp. desktop bp = d) (backgrounds s) of
        Some bp \<Rightarrow> Some bp
      | None \<Rightarrow> defaultBackground s)"

text \<open>The test "the background isn't changing": same type and \<open>strcmp\<close> equal values.\<close>

definition unchanged :: "BackgroundNode \<Rightarrow> bg_state \<Rightarrow> bool" where
  "unchanged bp s =
     (case lastBackground s of
        None \<Rightarrow> False
      | Some lb \<Rightarrow> bg_type bp = bg_type lb \<and> bg_value bp = bg_value lb)"

definition LoadBackground :: "int \<Rightarrow> bg_state \<Rightarrow> bg_state" where
  "LoadBackground d s =
     (case FindBackground d s of
        None \<Rightarrow> s
      | Some bp \<Rightarrow>
          if unchanged bp s then s
          else
            let s1 = s\<lparr>lastBackground := Some bp\<rparr>
            in (case bg_type bp of
                  BACKGROUND_SOLID \<Rightarrow>
                    emit [XChangeWindowAttributes [CWBackPixmap, CWBackPixel, CWBorderPixel]
                            \<lparr>background_pixmap = Some XNone,
                             background_pixel = pixel bp,
                             border_pixmap = pixmap bp\<rparr>,
                          XClearWindow] s1
                | BACKGROUND_COMMAND \<Rightarrow> emit [RunCommand (bg_value bp)] s1
                | _ \<Rightarrow>
                    emit [XChangeWindowAttributes [CWBackPixmap]
                            \<lparr>background_pixmap = pixmap bp,
                             background_pixel = None,
                             border_pixmap = None\<rparr>,
                          XClearWindow] s1))"

text \<open>
  A start state for examples: the module's variables as \<open>InitializeBackgrounds\<close> leaves
  them, an empty log, and a colour table for \<open>ParseColor\<close>.
\<close>

definition example_colors :: "string \<Rightarrow> int" where
  "example_colors c =
     (if c = ''red'' then 16711680 else if c = ''green'' then 65280
      else if c = ''blue'' then 255 else 0)"

definition example_no_icon :: "string \<Rightarrow> bool" where
  "example_no_icon n = False"

definition bg_start :: bg_state where
  "bg_start =
     InitializeBackgrounds
       \<lparr>backgrounds = [], defaultBackground = None, lastBackground = None, calls = [],
        next_pixmap = 0, ParseColor = example_colors, icon_exists = example_no_icon,
        rootWidth = 1024, rootHeight = 768, rootDepth = 24\<rparr>"

text \<open>
  The scenario of three registered backgrounds (desktop 0 red, desktop 1 blue, the
  default desktop green) after startup, and a state with a command background for
  desktop 0 and a solid one for desktop 1.
\<close>

definition scenario :: bg_state where
  "scenario = StartupBackgrounds
      (SetBackground (-1) (Some ''solid'') (Some ''green'')
        (SetBackground 1 (Some ''solid'') (Some ''blue'')
          (SetBackground 0 (Some ''solid'') (Some ''red'') bg_start)))"

definition command_state :: bg_state where
  "command_state = StartupBackgrounds
      (SetBackground 1 (Some ''solid'') (Some ''blue'')
        (SetBackground 0 (Some ''command'') (Some ''xsetroot -solid gray'') bg_start))"

text \<open>
  What applying a descriptor to the root window amounts to, by type: the calls that
  \<open>LoadBackground\<close> is expected to issue for it.
\<close>

definition activation_calls :: "BackgroundNode \<Rightarrow> native_call list" where
  "activation_calls bp =
     (case bg_type bp of
        BACKGROUND_SOLID \<Rightarrow>
          [XChangeWindowAttributes [CWBackPixmap, CWBackPixel, CWBorderPixel]
             \<lparr>background_pixmap = Some XNone, background_pixel = pixel bp,
              border_pixmap = pixmap bp\<rparr>, XClearWindow]
      | BACKGROUND_COMMAND \<Rightarrow> [RunCommand (bg_value bp)]
      | _ \<Rightarrow> [XChangeWindowAttributes [CWBackPixmap]
             \<lparr>background_pixmap = pixmap bp, background_pixel = None,
              border_pixmap = None\<rparr>, XClearWindow])"

text \<open>The nodes registered for the default desktop, the sentinel \<open>-1\<close>.\<close>

definition sentinel_nodes :: "BackgroundNode list \<Rightarrow> BackgroundNode list" where
  "sentinel_nodes bs = filter (\<lambda>bp. desktop bp = -1) bs"

section \<open>Icons (icon.c)\<close>

text \<open>
  The embedding is of the build with \<open>USE_ICONS\<close> defined and \<open>USE_XRENDER\<close> not
  defined, the software scaling path; all image formats are enabled in
  \<open>ICON_EXTENSIONS\<close>.

  \<open>IconNode\<close>s are linked into the hash table by their \<open>next\<close> and \<open>prev\<close> pointers
  (the fields \<open>icon_next\<close> and \<open>icon_prev\<close>), clients hold pointers to them, and
  \<open>DoDestroyIcon\<close> unlinks by pointer; they live in an explicit store \<open>icons\<close> from
  addresses to nodes. \<open>Allocate\<close> returns the address \<open>brk\<close> and
  advances it; an address at or above \<open>brk\<close>, or one that was released, holds no node.
  A function that dereferences such an address, or \<open>NULL\<close>, has no defined behaviour in
  C: the model returns \<open>None\<close> there, as it does when a chain walk does not end.

  The images of an icon and the scaled nodes of an image are singly linked lists owned by
  one parent and only extended at the head; they are HOL lists in the order of the
  \<open>next\<close> pointers, and a pointer into such a list is the position of the element.
\<close>

type_synonym addr = nat

subsection \<open>C integer arithmetic\<close>

text \<open>
  \<open>int\<close> is 32 bits wide. Signed overflow and division by zero have no defined
  behaviour: the operations return \<open>None\<close>. Division truncates towards zero,
  \<open>>> 16\<close> on a negative value is the arithmetic shift, and \<open><< 16\<close> is the
  multiplication by 65536 where the result fits.
\<close>

definition INT_MIN :: int where
  "INT_MIN = - 2147483648"

definition INT_MAX :: int where
  "INT_MAX = 2147483647"

definition c_int :: "int \<Rightarrow> int option" where
  "c_int x = (if INT_MIN \<le> x \<and> x \<le> INT_MAX then Some x else None)"

definition c_mul :: "int \<Rightarrow> int \<Rightarrow> int option" where
  "c_mul a b = c_int (a * b)"

definition c_shl16 :: "int \<Rightarrow> int option" where
  "c_shl16 a = c_int (a * 65536)"

definition c_shr16 :: "int \<Rightarrow> int" where
  "c_shr16 a = a div 65536"

definition c_div :: "int \<Rightarrow> int \<Rightarrow> int option" where
  "c_div a b = (if b = 0 then None else c_int (sgn a * sgn b * (\<bar>a\<bar> div \<bar>b\<bar>)))"

subsection \<open>Data\<close>

text \<open>
  Modelled from the spec: the structures \<open>ScaledIconNode\<close>, \<open>ImageNode\<close> and \<open>IconNode\<close>
  are declared in icon.h and image.h, which are not among the sources; the records have
  the fields that the specification's data model lists and that icon.c reads and writes.
  A pixmap is its X identifier, 0 for \<open>None\<close>; \<open>data\<close> is the byte array of the image.
\<close>

record ScaledIconNode =
  sn_fg :: int
  sn_width :: int
  sn_height :: int
  sn_image :: nat
  sn_mask :: nat

record ImageNode =
  width :: int
  height :: int
  bitmap :: bool
  data :: "nat list"
  nodes :: "ScaledIconNode list"

record IconNode =
  name :: "string option"
  images :: "ImageNode list"
  icon_next :: "addr option"
  icon_prev :: "addr option"
  preserveAspect :: bool

text \<open>
  An \<open>IconNode *\<close> is \<open>NULL\<close> (\<open>None\<close>), the address of the static \<open>emptyIcon\<close>, or the
  address of an allocated node. \<open>InitializeIcons\<close> clears \<open>emptyIcon\<close>, which is never
  written afterwards: its \<open>name\<close> is \<open>NULL\<close>.
\<close>

datatype icon_ptr = EmptyIcon | Heap addr

text \<open>The X server as the icon module uses it: the live pixmaps it created.\<close>

record xserver =
  pixmaps :: "nat list"
  next_xid :: nat
  depth :: int

record icon_state =
  icons :: "addr \<Rightarrow> IconNode option"
  brk :: addr
  iconHash :: "nat \<Rightarrow> addr option"
  iconPaths :: "string list"
  display :: xserver
  LoadImage :: "string \<Rightarrow> ImageNode list"

definition HASH_SIZE :: nat where
  "HASH_SIZE = 128"

definition ICON_EXTENSIONS :: "string list" where
  "ICON_EXTENSIONS =
     ['''', ''.png'', ''.PNG'', ''.svg'', ''.SVG'', ''.xpm'', ''.XPM'',
      ''.jpg'', ''.JPG'', ''.jpeg'', ''.JPEG'', ''.xbm'', ''.XBM'']"

subsection \<open>The store\<close>

definition deref :: "icon_state \<Rightarrow> addr \<Rightarrow> IconNode option" where
  "deref s a = (if a < brk s then icons s a else None)"

text \<open>A write through a pointer: \<open>p->field = v\<close>.\<close>

definition update_icon :: "addr \<Rightarrow> (IconNode \<Rightarrow> IconNode) \<Rightarrow> icon_state \<Rightarrow> icon_state option" where
  "update_icon a f s =
     (case deref s a of
        None \<Rightarrow> None
      | Some ic \<Rightarrow> Some (s\<lparr>icons := (icons s)(a \<mapsto> f ic)\<rparr>))"

definition Release_icon :: "addr \<Rightarrow> icon_state \<Rightarrow> icon_state" where
  "Release_icon a s = s\<lparr>icons := (icons s)(a := None)\<rparr>"

definition InitializeIcons :: "icon_state \<Rightarrow> icon_state" where
  "InitializeIcons s = s\<lparr>iconPaths := [], iconHash := (\<lambda>x. None)\<rparr>"

definition CreateIcon :: "icon_state \<Rightarrow> addr \<times> icon_state" where
  "CreateIcon s =
     (brk s,
      s\<lparr>icons := (icons s)(brk s \<mapsto>
            \<lparr>name = None, images = [], icon_next = None, icon_prev = None, preserveAspect = True\<rparr>),
        brk := Suc (brk s)\<rparr>)"

subsection \<open>The hash table\<close>

text \<open>
  \<open>GetHash\<close> works on \<open>unsigned int\<close>. A plain \<open>char\<close> is taken as signed, so the
  conversion to \<open>unsigned int\<close> extends the sign; only the low seven bits of the result
  are kept. A C string ends at its first NUL, so a name holds no NUL character.
\<close>

definition char_to_unsigned :: "char \<Rightarrow> 32 word" where
  "char_to_unsigned c =
     (if of_char c < (128 :: nat) then word_of_nat (of_char c)
      else word_of_nat (of_char c) + 0xFFFFFF00)"

definition GetHash_step :: "32 word \<Rightarrow> char \<Rightarrow> 32 word" where
  "GetHash_step hash c = (hash + push_bit 5 hash) XOR char_to_unsigned c"

definition GetHash :: "string option \<Rightarrow> nat" where
  "GetHash str =
     (case str of
        None \<Rightarrow> 0
      | Some cs \<Rightarrow> unat (fold (\<lambda>c hash. GetHash_step hash c) cs 0 AND 127))"

definition InsertIcon :: "addr \<Rightarrow> icon_state \<Rightarrow> icon_state option" where
  "InsertIcon a s =
     do {
       ic \<leftarrow> deref s a;
       nm \<leftarrow> name ic;
       let index = GetHash (Some nm);
       s1 \<leftarrow> update_icon a (\<lambda>n. n\<lparr>icon_prev := None\<rparr>) s;
       s2 \<leftarrow> (case iconHash s1 index of
                None \<Rightarrow> Some s1
              | Some h \<Rightarrow> update_icon h (\<lambda>n. n\<lparr>icon_prev := Some a\<rparr>) s1);
       s3 \<leftarrow> update_icon a (\<lambda>n. n\<lparr>icon_next := iconHash s2 index\<rparr>) s2;
       Some (s3\<lparr>iconHash := (iconHash s3)(index := Some a)\<rparr>)
     }"

text \<open>
  The loop of \<open>FindIcon\<close>. \<open>strcmp\<close> on a \<open>NULL\<close> name, and a pointer to no node, are
  undefined; a chain that is a cycle without the name is walked forever.
\<close>

partial_function (option) FindIcon_walk ::
  "icon_state \<Rightarrow> string \<Rightarrow> addr option \<Rightarrow> addr option option" where
  [code]: "FindIcon_walk s nm p =
     (case p of
        None \<Rightarrow> Some None
      | Some a \<Rightarrow>
          do {
            ic \<leftarrow> deref s a;
            n \<leftarrow> name ic;
            if n = nm then Some (Some a) else FindIcon_walk s nm (icon_next ic)
          })"

definition FindIcon :: "icon_state \<Rightarrow> string \<Rightarrow> addr option option" where
  "FindIcon s nm = FindIcon_walk s nm (iconHash s (GetHash (Some nm)))"

subsection \<open>Releasing icons\<close>

definition JXFreePixmap :: "nat \<Rightarrow> xserver \<Rightarrow> xserver" where
  "JXFreePixmap p x = x\<lparr>pixmaps := removeAll p (pixmaps x)\<rparr>"

definition JXCreatePixmap :: "int \<Rightarrow> int \<Rightarrow> int \<Rightarrow> xserver \<Rightarrow> nat \<times> xserver" where
  "JXCreatePixmap w h d x =
     (let p = Suc (next_xid x) in (p, x\<lparr>pixmaps := p # pixmaps x, next_xid := p\<rparr>))"

text \<open>The body of the inner loop of \<open>DoDestroyIcon\<close>, for one scaled node.\<close>

definition free_scaled :: "ScaledIconNode \<Rightarrow> xserver \<Rightarrow> xserver" where
  "free_scaled np x =
     (let x1 = (if sn_image np \<noteq> XNone then JXFreePixmap (sn_image np) x else x)
      in if sn_mask np \<noteq> XNone then JXFreePixmap (sn_mask np) x1 else x1)"

text \<open>
  \<open>DoDestroyIcon(index, icon)\<close>: the pixmaps of every scaled node of every image are
  freed, then the node is unlinked (\<open>icon->prev->next = icon->next\<close>, or
  \<open>iconHash[index] = icon->next\<close> when \<open>icon->prev\<close> is \<open>NULL\<close>, and
  \<open>icon->next->prev = icon->prev\<close>) and released. The name, the images and their nodes
  are part of the node in the model and go with it.
\<close>

definition DoDestroyIcon :: "nat \<Rightarrow> icon_ptr option \<Rightarrow> icon_state \<Rightarrow> icon_state option" where
  "DoDestroyIcon index p s =
     (case p of
        None \<Rightarrow> Some s
      | Some EmptyIcon \<Rightarrow> Some s
      | Some (Heap a) \<Rightarrow>
          do {
            ic \<leftarrow> deref s a;
            let s1 = s\<lparr>display := fold free_scaled (concat (map nodes (images ic))) (display s)\<rparr>;
            s2 \<leftarrow> (case icon_prev ic of
                     Some q \<Rightarrow> update_icon q (\<lambda>n. n\<lparr>icon_next := icon_next ic\<rparr>) s1
                   | None \<Rightarrow> Some (s1\<lparr>iconHash := (iconHash s1)(index := icon_next ic)\<rparr>));
            ic2 \<leftarrow> deref s2 a;
            s3 \<leftarrow> (case icon_next ic2 of
                     Some q \<Rightarrow> update_icon q (\<lambda>n. n\<lparr>icon_prev := icon_prev ic2\<rparr>) s2
                   | None \<Rightarrow> Some s2);
            Some (Release_icon a s3)
          })"

text \<open>\<open>icon->name\<close> for a non-\<open>NULL\<close> pointer.\<close>

definition name_of :: "icon_state \<Rightarrow> icon_ptr \<Rightarrow> string option option" where
  "name_of s q = (case q of EmptyIcon \<Rightarrow> Some None | Heap a \<Rightarrow> map_option name (deref s a))"

definition DestroyIcon :: "icon_ptr option \<Rightarrow> icon_state \<Rightarrow> icon_state option" where
  "DestroyIcon p s =
     (case p of
        None \<Rightarrow> Some s
      | Some q \<Rightarrow>
          do {
            nm \<leftarrow> name_of s q;
            if nm = None then DoDestroyIcon (GetHash nm) p s else Some s
          })"

text \<open>
  \<open>ShutdownIcons\<close>: for every bucket, the head is destroyed while there is one.
  (\<open>iconGC\<close> is not part of the model.)
\<close>

partial_function (option) ShutdownIcons_while :: "nat \<Rightarrow> icon_state \<Rightarrow> icon_state option" where
  [code]: "ShutdownIcons_while x s =
     (case iconHash s x of
        None \<Rightarrow> Some s
      | Some a \<Rightarrow>
          do {
            s' \<leftarrow> DoDestroyIcon x (Some (Heap a)) s;
            ShutdownIcons_while x s'
          })"

fun ShutdownIcons_for :: "nat list \<Rightarrow> icon_state \<Rightarrow> icon_state option" where
  "ShutdownIcons_for [] s = Some s"
| "ShutdownIcons_for (x # xs) s =
     do {
       s' \<leftarrow> ShutdownIcons_while x s;
       ShutdownIcons_for xs s'
     }"

definition ShutdownIcons :: "icon_state \<Rightarrow> icon_state option" where
  "ShutdownIcons s = ShutdownIcons_for [0 ..< HASH_SIZE] s"

subsection \<open>Loading icons by name\<close>

text \<open>
  \<open>LoadImage\<close> (image.c) is not part of the sources: it is the field \<open>LoadImage\<close> of the
  state, from a file name to the list of images decoded from that file, the empty list
  for \<open>NULL\<close>. A result is the returned pointer and the state after the call.
\<close>

definition CreateIconFromFile ::
  "string option \<Rightarrow> bool \<Rightarrow> bool \<Rightarrow> icon_state \<Rightarrow> (icon_ptr option \<times> icon_state) option" where
  "CreateIconFromFile fileName save pa s =
     (case fileName of
        None \<Rightarrow> Some (None, s)
      | Some fn \<Rightarrow>
          do {
            found \<leftarrow> FindIcon s fn;
            case found of
              Some a \<Rightarrow> Some (Some (Heap a), s)
            | None \<Rightarrow>
                (if LoadImage s fn \<noteq> [] then
                   do {
                     let (a, s1) = CreateIcon s;
                     s2 \<leftarrow> update_icon a (\<lambda>n. n\<lparr>preserveAspect := pa\<rparr>) s1;
                     s3 \<leftarrow> update_icon a (\<lambda>n. n\<lparr>images := LoadImage s fn\<rparr>) s2;
                     s4 \<leftarrow> (if save then
                              do {
                                s' \<leftarrow> update_icon a (\<lambda>n. n\<lparr>name := Some fn\<rparr>) s3;
                                InsertIcon a s'
                              }
                            else Some s3);
                     Some (Some (Heap a), s4)
                   }
                 else Some (None, s))
          })"

text \<open>
  The loop of \<open>LoadNamedIconHelper\<close> over the extensions; \<open>temp\<close> is the path followed
  by the name.
\<close>

fun LoadNamedIconHelper_loop ::
  "string \<Rightarrow> string list \<Rightarrow> bool \<Rightarrow> bool \<Rightarrow> icon_state \<Rightarrow> (icon_ptr option \<times> icon_state) option" where
  "LoadNamedIconHelper_loop temp [] save pa s = Some (None, s)"
| "LoadNamedIconHelper_loop temp (ext # exts) save pa s =
     do {
       (result, s') \<leftarrow> CreateIconFromFile (Some (temp @ ext)) save pa s;
       if result \<noteq> None then Some (result, s')
       else LoadNamedIconHelper_loop temp exts save pa s'
     }"

definition LoadNamedIconHelper ::
  "string \<Rightarrow> string \<Rightarrow> bool \<Rightarrow> bool \<Rightarrow> icon_state \<Rightarrow> (icon_ptr option \<times> icon_state) option" where
  "LoadNamedIconHelper nm path save pa s =
     LoadNamedIconHelper_loop (path @ nm) ICON_EXTENSIONS save pa s"

text \<open>The loop of \<open>LoadNamedIcon\<close> over the search paths.\<close>

fun LoadNamedIcon_loop ::
  "string \<Rightarrow> string list \<Rightarrow> bool \<Rightarrow> bool \<Rightarrow> icon_state \<Rightarrow> (icon_ptr option \<times> icon_state) option" where
  "LoadNamedIcon_loop nm [] save pa s = Some (None, s)"
| "LoadNamedIcon_loop nm (ip # ips) save pa s =
     do {
       (icon, s') \<leftarrow> LoadNamedIconHelper nm ip save pa s;
       if icon \<noteq> None then Some (icon, s')
       else LoadNamedIcon_loop nm ips save pa s'
     }"

definition LoadNamedIcon ::
  "string \<Rightarrow> bool \<Rightarrow> bool \<Rightarrow> icon_state \<Rightarrow> (icon_ptr option \<times> icon_state) option" where
  "LoadNamedIcon nm save pa s =
     (case nm of
        [] \<Rightarrow> Some (Some EmptyIcon, s)
      | c # cs \<Rightarrow>
          if c = CHR ''/'' then CreateIconFromFile (Some nm) save pa s
          else LoadNamedIcon_loop nm (iconPaths s) save pa s)"

text \<open>
  A sequence of calls \<open>LoadNamedIcon(name, save, preserveAspect)\<close>, one after the
  other: the pointers they return, in order, and the state after the last call.
\<close>

fun LoadNamedIcon_seq ::
  "(string \<times> bool \<times> bool) list \<Rightarrow> icon_state \<Rightarrow>
     (icon_ptr option list \<times> icon_state) option" where
  "LoadNamedIcon_seq [] s = Some ([], s)"
| "LoadNamedIcon_seq ((nm, save, pa) # rest) s =
     do {
       (r, s1) \<leftarrow> LoadNamedIcon nm save pa s;
       (rs, s2) \<leftarrow> LoadNamedIcon_seq rest s1;
       Some (r # rs, s2)
     }"

subsection \<open>The best image for a requested size\<close>

text \<open>
  \<open>GetBestImage\<close> returns a pointer into \<open>icon->images\<close>: the position of the image.
  The running \<open>best\<close> is a position with the image there; \<open>ip\<close> walks the rest of the
  list. \<open>icon->images->next\<close> on an icon without images dereferences \<open>NULL\<close>.
\<close>

fun GetBestImage_loop ::
  "int \<Rightarrow> int \<Rightarrow> nat \<times> ImageNode \<Rightarrow> nat \<Rightarrow> ImageNode list \<Rightarrow> nat option" where
  "GetBestImage_loop rwidth rheight (bi, best) i [] = Some bi"
| "GetBestImage_loop rwidth rheight (bi, best) i (ip # rest) =
     do {
       best_area \<leftarrow> c_mul (width best) (height best);
       other_area \<leftarrow> c_mul (width ip) (height ip);
       (best_overlap, other_overlap) \<leftarrow>
         (if rwidth = 0 \<and> rheight = 0 then Some (0, 0)
          else if rwidth = 0 then Some (min (height best) rheight, min (height ip) rheight)
          else if rheight = 0 then Some (min (width best) rwidth, min (width ip) rwidth)
          else
            do {
              bo \<leftarrow> c_mul (min (width best) rwidth) (min (height best) rheight);
              oo \<leftarrow> c_mul (min (width ip) rwidth) (min (height ip) rheight);
              Some (bo, oo)
            });
       GetBestImage_loop rwidth rheight
         (if other_overlap > best_overlap then (i, ip)
          else if other_overlap = best_overlap \<and> other_area < best_area then (i, ip)
          else (bi, best))
         (Suc i) rest
     }"

definition GetBestImage :: "IconNode \<Rightarrow> int \<Rightarrow> int \<Rightarrow> nat option" where
  "GetBestImage icon rwidth rheight =
     (case images icon of
        [] \<Rightarrow> None
      | im # rest \<Rightarrow> GetBestImage_loop rwidth rheight (0, im) 1 rest)"

subsection \<open>Scaled icons\<close>

text \<open>
  The first part of \<open>GetScaledIcon\<close>: the effective size \<open>(nwidth, nheight)\<close> of the
  rendering.
\<close>

definition GetScaledIcon_size :: "IconNode \<Rightarrow> ImageNode \<Rightarrow> int \<Rightarrow> int \<Rightarrow> (int \<times> int) option" where
  "GetScaledIcon_size icon iconImage rwidth0 rheight0 =
     (let rwidth = (if rwidth0 = 0 then width iconImage else rwidth0);
          rheight = (if rheight0 = 0 then height iconImage else rheight0)
      in do {
           (nwidth, nheight) \<leftarrow>
             (if preserveAspect icon then
                do {
                  w16 \<leftarrow> c_shl16 (width iconImage);
                  ratio \<leftarrow> c_div w16 (height iconImage);
                  hr \<leftarrow> c_mul rheight ratio;
                  let nwidth = min rwidth (c_shr16 hr);
                  n16 \<leftarrow> c_shl16 nwidth;
                  q \<leftarrow> c_div n16 ratio;
                  let nheight = min rheight q;
                  nr \<leftarrow> c_mul nheight ratio;
                  Some (c_shr16 nr, nheight)
                }
              else Some (rwidth, rheight));
           Some (max 1 nwidth, max 1 nheight)
         })"

text \<open>
  The loop "check if this size already exists" over \<open>iconImage->nodes\<close>; the result is
  the position of the node found, \<open>None\<close> when the loop ends without one.
\<close>

fun GetScaledIcon_probe ::
  "ImageNode \<Rightarrow> int \<Rightarrow> int \<Rightarrow> int \<Rightarrow> nat \<Rightarrow> ScaledIconNode list \<Rightarrow> nat option" where
  "GetScaledIcon_probe iconImage fg nwidth nheight i [] = None"
| "GetScaledIcon_probe iconImage fg nwidth nheight i (np # rest) =
     (if sn_width np = nwidth \<and> sn_height np = nheight
         \<and> (\<not> bitmap iconImage \<or> sn_fg np = fg)
      then Some i
      else GetScaledIcon_probe iconImage fg nwidth nheight (Suc i) rest)"

text \<open>
  \<open>GetScaledIcon\<close> returns a pointer into \<open>iconImage->nodes\<close> (the position of the
  node), the image as the call leaves it, and the X server. On a miss a node is put at
  the head of the list with a mask and an image pixmap of its own. The scale factors are
  computed as the code does; what the loops draw into the two pixmaps is not tracked.
\<close>

definition GetScaledIcon ::
  "IconNode \<Rightarrow> ImageNode \<Rightarrow> int \<Rightarrow> int \<Rightarrow> int \<Rightarrow> xserver \<Rightarrow> (nat \<times> ImageNode \<times> xserver) option" where
  "GetScaledIcon icon iconImage fg rwidth rheight x =
     do {
       (nwidth, nheight) \<leftarrow> GetScaledIcon_size icon iconImage rwidth rheight;
       case GetScaledIcon_probe iconImage fg nwidth nheight 0 (nodes iconImage) of
         Some i \<Rightarrow> Some (i, iconImage, x)
       | None \<Rightarrow>
           do {
             let (mask, x1) = JXCreatePixmap nwidth nheight 1 x;
             w16 \<leftarrow> c_shl16 (width iconImage);
             scalex \<leftarrow> c_div w16 nwidth;
             h16 \<leftarrow> c_shl16 (height iconImage);
             scaley \<leftarrow> c_div h16 nheight;
             let (image, x2) = JXCreatePixmap nwidth nheight (depth x1) x1;
             let np = \<lparr>sn_fg = fg, sn_width = nwidth, sn_height = nheight,
                       sn_image = image, sn_mask = mask\<rparr>;
             Some (0, iconImage\<lparr>nodes := np # nodes iconImage\<rparr>, x2)
           }
     }"

text \<open>
  A sequence of requests \<open>(fg, rwidth, rheight)\<close> for scaled icons of one image, one
  after the other: the image and the server after the last request.
\<close>

fun GetScaledIcon_seq ::
  "(int \<times> int \<times> int) list \<Rightarrow> IconNode \<Rightarrow> ImageNode \<Rightarrow> xserver \<Rightarrow>
     (ImageNode \<times> xserver) option" where
  "GetScaledIcon_seq [] icon im x = Some (im, x)"
| "GetScaledIcon_seq ((fg, rw, rh) # rest) icon im x =
     do {
       (i, im1, x1) \<leftarrow> GetScaledIcon icon im fg rw rh x;
       GetScaledIcon_seq rest icon im1 x1
     }"

subsection \<open>Icons from window properties\<close>

text \<open>
  \<open>CreateIconFromBinary(input, length)\<close>: \<open>input\<close> is the property data, an array of
  \<open>unsigned long\<close>; the model knows how many words the array holds, and a read at an
  index outside of it is the error \<open>OutOfBounds\<close> (\<open>BadPointer\<close> is a write through
  \<open>result\<close> when it points to no node). \<open>width\<close>, \<open>height\<close>, \<open>offset\<close> and
  \<open>length\<close> are \<open>unsigned int\<close>, 32 bits wide: the conversions and the product
  \<open>width * height\<close> are taken modulo \<open>2 ^ 32\<close>. The array is shorter than \<open>2 ^ 32\<close>
  words, so \<open>offset\<close> itself does not wrap before a read is out of bounds.
\<close>

datatype error = OutOfBounds | BadPointer

definition UINT_MOD :: nat where
  "UINT_MOD = 4294967296"

definition read_word :: "nat list \<Rightarrow> nat \<Rightarrow> error + nat" where
  "read_word input i = (if i < length input then Inr (input ! i) else Inl OutOfBounds)"

text \<open>The four bytes stored for one word: bits 24 to 31, 16 to 23, 8 to 15 and 0 to 7.\<close>

definition word_bytes :: "nat \<Rightarrow> nat list" where
  "word_bytes v =
     [(v div 16777216) mod 256, (v div 65536) mod 256, (v div 256) mod 256, v mod 256]"

text \<open>The copy loop: \<open>n\<close> words are still to be read, the next one at \<open>offset\<close>.\<close>

fun CreateIconFromBinary_copy :: "nat list \<Rightarrow> nat \<Rightarrow> nat \<Rightarrow> error + nat list" where
  "CreateIconFromBinary_copy input offset 0 = Inr []"
| "CreateIconFromBinary_copy input offset (Suc n) =
     (case read_word input offset of
        Inl e \<Rightarrow> Inl e
      | Inr v \<Rightarrow>
          (case CreateIconFromBinary_copy input (offset + 1) n of
             Inl e \<Rightarrow> Inl e
           | Inr bs \<Rightarrow> Inr (word_bytes v @ bs)))"

text \<open>
  Modelled from the spec: \<open>CreateImage\<close> is defined in image.c, which is not among the
  sources. \<open>CreateImage(width, height, 0)\<close> is modelled as icon.c uses its result: an
  image variant of the given size that is not a bitmap, with no scaled nodes. The fields
  of \<open>ImageNode\<close> are \<open>int\<close>.
\<close>

definition unsigned_to_int :: "nat \<Rightarrow> int" where
  "unsigned_to_int n = (if n < 2147483648 then int n else int n - 4294967296)"

definition CreateImage :: "nat \<Rightarrow> nat \<Rightarrow> nat list \<Rightarrow> ImageNode" where
  "CreateImage w h bytes =
     \<lparr>width = unsigned_to_int w, height = unsigned_to_int h, bitmap = False,
      data = bytes, nodes = []\<rparr>"

function CreateIconFromBinary_while ::
  "nat list \<Rightarrow> nat \<Rightarrow> nat \<Rightarrow> addr option \<Rightarrow> icon_state \<Rightarrow> error + (addr option \<times> icon_state)" where
  "CreateIconFromBinary_while input len offset result s =
     (if offset < len then
        (case read_word input (offset + 0) of
           Inl e \<Rightarrow> Inl e
         | Inr w0 \<Rightarrow>
             (case read_word input (offset + 1) of
                Inl e \<Rightarrow> Inl e
              | Inr h0 \<Rightarrow>
                  (let w = w0 mod UINT_MOD; h = h0 mod UINT_MOD
                   in if (w * h + 2) mod UINT_MOD > len - offset then Inr (result, s)
                      else if w = 0 \<or> h = 0 then Inr (result, s)
                      else
                        (case CreateIconFromBinary_copy input (offset + 2)
                                ((w * h) mod UINT_MOD) of
                           Inl e \<Rightarrow> Inl e
                         | Inr bytes \<Rightarrow>
                             (let (a, s1) = (case result of
                                               None \<Rightarrow> CreateIcon s
                                             | Some r \<Rightarrow> (r, s))
                              in case update_icon a
                                        (\<lambda>n. n\<lparr>images := CreateImage w h bytes # images n\<rparr>) s1 of
                                   None \<Rightarrow> Inl BadPointer
                                 | Some s2 \<Rightarrow>
                                     CreateIconFromBinary_while input len
                                       (offset + 2 + (w * h) mod UINT_MOD) (Some a) s2)))))
      else Inr (result, s))"
  by pat_completeness auto
termination
  by (relation "measure (\<lambda>(input, len, offset, result, s). len - offset)") auto

definition CreateIconFromBinary ::
  "nat list option \<Rightarrow> nat \<Rightarrow> icon_state \<Rightarrow> error + (addr option \<times> icon_state)" where
  "CreateIconFromBinary input len s =
     (case input of
        None \<Rightarrow> Inr (None, s)
      | Some buf \<Rightarrow> CreateIconFromBinary_while buf (len mod UINT_MOD) 0 None s)"

subsection \<open>Example values\<close>

text \<open>A 16 by 16 RGBA image without renderings, an icon that holds it, and a server.\<close>

definition example_image :: ImageNode where
  "example_image = \<lparr>width = 16, height = 16, bitmap = False, data = [], nodes = []\<rparr>"

definition example_icon :: IconNode where
  "example_icon =
     \<lparr>name = None, images = [example_image], icon_next = None, icon_prev = None,
      preserveAspect = True\<rparr>"

definition example_display :: xserver where
  "example_display = \<lparr>pixmaps = [], next_xid = 0, depth = 24\<rparr>"

text \<open>The image and the server after a first rendering at 24 by 24 with foreground 7.\<close>

definition rendered_image :: ImageNode where
  "rendered_image =
     example_image\<lparr>nodes :=
       [\<lparr>sn_fg = 7, sn_width = 24, sn_height = 24, sn_image = 2, sn_mask = 1\<rparr>]\<rparr>"

definition rendered_display :: xserver where
  "rendered_display = \<lparr>pixmaps = [2, 1], next_xid = 2, depth = 24\<rparr>"

text \<open>
  The image and the server after a further rendering at 32 by 32: the new node is at the
  head of the list.
\<close>

definition rendered_twice_image :: ImageNode where
  "rendered_twice_image =
     example_image\<lparr>nodes :=
       [\<lparr>sn_fg = 7, sn_width = 32, sn_height = 32, sn_image = 4, sn_mask = 3\<rparr>,
        \<lparr>sn_fg = 7, sn_width = 24, sn_height = 24, sn_image = 2, sn_mask = 1\<rparr>]\<rparr>"

definition rendered_twice_display :: xserver where
  "rendered_twice_display = \<lparr>pixmaps = [4, 3, 2, 1], next_xid = 4, depth = 24\<rparr>"

text \<open>The area of an image, as a mathematical integer.\<close>

definition area :: "ImageNode \<Rightarrow> int" where
  "area im = width im * height im"

text \<open>Images of a given size, and icons that hold 16 by 16 and 32 by 32 in both orders.\<close>

definition sized_image :: "int \<Rightarrow> int \<Rightarrow> ImageNode" where
  "sized_image w h = \<lparr>width = w, height = h, bitmap = False, data = [], nodes = []\<rparr>"

definition icon_16_32 :: IconNode where
  "icon_16_32 =
     \<lparr>name = None, images = [sized_image 16 16, sized_image 32 32], icon_next = None,
      icon_prev = None, preserveAspect = True\<rparr>"

definition icon_32_16 :: IconNode where
  "icon_32_16 =
     \<lparr>name = None, images = [sized_image 32 32, sized_image 16 16], icon_next = None,
      icon_prev = None, preserveAspect = True\<rparr>"

text \<open>
  A start state for examples: the image loader knows one file, whose name hashes to
  bucket 0, and one directory is on the search path.
\<close>

definition example_files :: "string \<Rightarrow> ImageNode list" where
  "example_files fn = (if fn = ''/usr/share/icons/xterm.png'' then [example_image] else [])"

definition icons_start :: icon_state where
  "icons_start =
     (InitializeIcons
        \<lparr>icons = (\<lambda>a. None), brk = 0, iconHash = (\<lambda>x. None), iconPaths = [],
         display = example_display, LoadImage = example_files\<rparr>)
     \<lparr>iconPaths := [''/usr/share/icons/'']\<rparr>"

text \<open>
  Two states compared by what a lookup sees: the loader and the search path are the same,
  a name that was neither in the hash table nor loadable is still not in the hash table,
  and a name that was found in the hash table is still found, at the same address.
\<close>

definition cache_grows :: "icon_state \<Rightarrow> icon_state \<Rightarrow> bool" where
  "cache_grows s s' =
     (LoadImage s' = LoadImage s \<and> iconPaths s' = iconPaths s
      \<and> (\<forall>nm. FindIcon s nm = Some None \<and> LoadImage s nm = [] \<longrightarrow>
                FindIcon s' nm = Some None)
      \<and> (\<forall>nm a. FindIcon s nm = Some (Some a) \<longrightarrow> FindIcon s' nm = Some (Some a)))"

text \<open>
  The state after \<open>LoadNamedIcon("xterm", 1, 1)\<close> in the start state: one icon at
  address 0, stored under the file name it was found as, at the head of bucket 0.
\<close>

definition xterm_icon :: IconNode where
  "xterm_icon =
     \<lparr>name = Some ''/usr/share/icons/xterm.png'', images = [example_image],
      icon_next = None, icon_prev = None, preserveAspect = True\<rparr>"

definition xterm_loaded :: icon_state where
  "xterm_loaded =
     \<lparr>icons = (\<lambda>a. None)(0 \<mapsto> xterm_icon),
      brk = 1, iconHash = (\<lambda>x. None)(0 \<mapsto> 0), iconPaths = [''/usr/share/icons/''],
      display = example_display, LoadImage = example_files\<rparr>"

text \<open>
  A client icon read from a window property of one pixel, as \<open>CreateIconFromBinary\<close>
  builds it; the state that holds it beside the cached icon; and the state after the
  client icon has been destroyed.
\<close>

definition client_icon :: IconNode where
  "client_icon =
     \<lparr>name = None, images = [CreateImage 1 1 [255, 0, 0, 0]], icon_next = None,
      icon_prev = None, preserveAspect = True\<rparr>"

definition with_client_icon :: icon_state where
  "with_client_icon =
     \<lparr>icons = (\<lambda>a. None)(0 \<mapsto> xterm_icon, 1 \<mapsto> client_icon),
      brk = 2, iconHash = (\<lambda>x. None)(0 \<mapsto> 0), iconPaths = [''/usr/share/icons/''],
      display = example_display, LoadImage = example_files\<rparr>"

definition client_icon_destroyed :: icon_state where
  "client_icon_destroyed =
     \<lparr>icons = (\<lambda>a. None)(0 \<mapsto> xterm_icon),
      brk = 2, iconHash = (\<lambda>x. None)(0 := None), iconPaths = [''/usr/share/icons/''],
      display = example_display, LoadImage = example_files\<rparr>"

text \<open>
  Two files whose names hash to the same bucket, 79: the start state, the state after
  \<open>/aa\<close> has been loaded (address 0), and the state after \<open>/ee\<close> has been loaded
  as well (address 1, the new head of the bucket).
\<close>

definition collide_files :: "string \<Rightarrow> ImageNode list" where
  "collide_files fn = (if fn = ''/aa'' \<or> fn = ''/ee'' then [example_image] else [])"

definition collide_start :: icon_state where
  "collide_start =
     InitializeIcons
        \<lparr>icons = (\<lambda>a. None), brk = 0, iconHash = (\<lambda>x. None), iconPaths = [],
         display = example_display, LoadImage = collide_files\<rparr>"

definition aa_loaded :: icon_state where
  "aa_loaded =
     \<lparr>icons = (\<lambda>a. None)(0 \<mapsto>
        \<lparr>name = Some ''/aa'', images = [example_image], icon_next = None, icon_prev = None,
         preserveAspect = True\<rparr>),
      brk = 1, iconHash = (\<lambda>x. None)(79 \<mapsto> 0), iconPaths = [],
      display = example_display, LoadImage = collide_files\<rparr>"

definition aa_ee_loaded :: icon_state where
  "aa_ee_loaded =
     \<lparr>icons = (\<lambda>a. None)(0 \<mapsto>
        \<lparr>name = Some ''/aa'', images = [example_image], icon_next = None,
         icon_prev = Some 1, preserveAspect = True\<rparr>,
        1 \<mapsto>
        \<lparr>name = Some ''/ee'', images = [example_image], icon_next = Some 0,
         icon_prev = None, preserveAspect = True\<rparr>),
      brk = 2, iconHash = (\<lambda>x. None)(79 \<mapsto> 1), iconPaths = [],
      display = example_display, LoadImage = collide_files\<rparr>"

subsection \<open>Well-formed hash chains\<close>

text \<open>
  \<open>chain s pv p as\<close>: following the \<open>next\<close> pointers from \<open>p\<close> passes exactly the
  addresses \<open>as\<close> and ends in \<open>NULL\<close>; every node on the way is allocated and named,
  and its \<open>prev\<close> pointer is the node before it (\<open>pv\<close> for the first).
\<close>

fun chain :: "icon_state \<Rightarrow> addr option \<Rightarrow> addr option \<Rightarrow> addr list \<Rightarrow> bool" where
  "chain s pv p [] = (p = None)"
| "chain s pv p (a # as) =
     (p = Some a
      \<and> (case deref s a of
            None \<Rightarrow> False
          | Some ic \<Rightarrow>
              name ic \<noteq> None \<and> icon_prev ic = pv \<and> chain s (Some a) (icon_next ic) as))"

text \<open>
  The hash table is well formed with contents \<open>bs\<close>: bucket \<open>x\<close> is the chain of the
  addresses \<open>bs x\<close>, no address occurs twice in a bucket or in two buckets.
\<close>

definition cache_wf :: "icon_state \<Rightarrow> (nat \<Rightarrow> addr list) \<Rightarrow> bool" where
  "cache_wf s bs =
     (\<forall>x \<in> set [0 ..< HASH_SIZE].
        chain s None (iconHash s x) (bs x) \<and> distinct (bs x)
        \<and> (\<forall>y \<in> set [0 ..< HASH_SIZE]. x \<noteq> y \<longrightarrow> set (bs x) \<inter> set (bs y) = {}))"

text \<open>The contents of the hash table of \<open>xterm_loaded\<close>: address 0 in bucket 0.\<close>

definition xterm_buckets :: "nat \<Rightarrow> addr list" where
  "xterm_buckets x = (if x = 0 then [0] else [])"

section \<open>Properties of the background manager\<close>

lemma FindBackground_LoadBackground [simp]:
  "FindBackground d (LoadBackground d' s) = FindBackground d s"
  by (simp add: FindBackground_def LoadBackground_def emit_def Let_def
           split: option.splits BackgroundType.splits)

lemma unchanged_after_load:
  "FindBackground d s = Some bp \<Longrightarrow> unchanged bp (LoadBackground d s)"
  by (simp add: LoadBackground_def unchanged_def emit_def Let_def
           split: option.splits BackgroundType.splits)

lemma LoadBackground_applies:
  "FindBackground d s = Some bp \<Longrightarrow> \<not> unchanged bp s \<Longrightarrow>
   LoadBackground d s = s\<lparr>lastBackground := Some bp, calls := calls s @ activation_calls bp\<rparr>"
  by (simp add: LoadBackground_def activation_calls_def emit_def split: BackgroundType.splits)

lemma LoadBackground_skips:
  "FindBackground d s = Some bp \<Longrightarrow> unchanged bp s \<Longrightarrow> LoadBackground d s = s"
  by (simp add: LoadBackground_def)

lemma find_None_unregistered:
  "(\<forall>bp \<in> set bs. desktop bp \<noteq> d) \<Longrightarrow> find (\<lambda>bp. desktop bp = d) bs = None"
  by (induction bs) auto

lemmas bg_eval =
  scenario_def command_state_def bg_start_def SetBackground_def InitializeBackgrounds_def
  StartupBackgrounds_def LoadSolidBackground_def LoadBackground_def FindBackground_def
  unchanged_def emit_def example_colors_def XNone_def activation_calls_def

text \<open>
  Claim C7. Activating the same desktop twice in a row: whatever the state and the
  desktop, the second \<open>LoadBackground\<close> leaves the state as the first one left it; in
  particular it adds no call to the log, so the attribute change and the redraw happen
  at most once.
\<close>

theorem LoadBackground_idempotent:
  "LoadBackground d (LoadBackground d s) = LoadBackground d s
   \<and> calls (LoadBackground d (LoadBackground d s)) = calls (LoadBackground d s)"
proof (cases "FindBackground d s")
  case None
  then show ?thesis by (simp add: LoadBackground_def)
next
  case (Some bp)
  have "FindBackground d (LoadBackground d s) = Some bp" using Some by simp
  moreover have "unchanged bp (LoadBackground d s)" using Some by (rule unchanged_after_load)
  ultimately have "LoadBackground d (LoadBackground d s) = LoadBackground d s"
    by (subst LoadBackground_def) simp
  then show ?thesis by simp
qed

theorem LoadBackground_idempotent_witness:
  "calls (LoadBackground 0 (LoadBackground 0 scenario)) =
     [XChangeWindowAttributes [CWBackPixmap, CWBackPixel, CWBorderPixel]
        \<lparr>background_pixmap = Some 0, background_pixel = Some 16711680, border_pixmap = None\<rparr>,
      XClearWindow]"
  using LoadBackground_idempotent [of 0 scenario]
  by (simp add: bg_eval)

text \<open>
  Claim C8, as stated, fails: with a command background registered for desktop 0, the
  first activation runs the command and the second activation of the same desktop does
  not run it again.
\<close>

theorem command_not_rerun_counterexample:
  "FindBackground 0 (LoadBackground 0 command_state) =
     Some \<lparr>desktop = 0, bg_type = BACKGROUND_COMMAND, bg_value = ''xsetroot -solid gray'',
           pixel = None, pixmap = None\<rparr>
   \<and> calls (LoadBackground 0 command_state) = [RunCommand ''xsetroot -solid gray'']
   \<and> calls (LoadBackground 0 (LoadBackground 0 command_state)) =
       [RunCommand ''xsetroot -solid gray'']"
  by (simp add: bg_eval)

text \<open>
  Claim C8, amended. An activation that resolves to a command descriptor and is not
  skipped by the test "the background isn't changing" runs the command on the value
  string and does nothing else but record the descriptor as the last one. The run is
  not memoized beyond that test: once a descriptor of another type or value has been
  activated in between, activating the command descriptor runs the command again.
\<close>

theorem LoadBackground_command_runs_when_changed:
  "(FindBackground d s = Some bp \<and> bg_type bp = BACKGROUND_COMMAND \<and> \<not> unchanged bp s \<longrightarrow>
      LoadBackground d s =
        s\<lparr>lastBackground := Some bp, calls := calls s @ [RunCommand (bg_value bp)]\<rparr>)
   \<and> (FindBackground d s = Some bp \<and> bg_type bp = BACKGROUND_COMMAND
       \<and> FindBackground d' s = Some bp'
       \<and> (bg_type bp' \<noteq> bg_type bp \<or> bg_value bp' \<noteq> bg_value bp) \<longrightarrow>
      calls (LoadBackground d (LoadBackground d' (LoadBackground d s))) =
        calls (LoadBackground d' (LoadBackground d s)) @ [RunCommand (bg_value bp)])"
proof (intro conjI impI)
  assume a: "FindBackground d s = Some bp \<and> bg_type bp = BACKGROUND_COMMAND \<and> \<not> unchanged bp s"
  then show "LoadBackground d s =
        s\<lparr>lastBackground := Some bp, calls := calls s @ [RunCommand (bg_value bp)]\<rparr>"
    by (simp add: LoadBackground_applies activation_calls_def)
next
  assume a: "FindBackground d s = Some bp \<and> bg_type bp = BACKGROUND_COMMAND
       \<and> FindBackground d' s = Some bp'
       \<and> (bg_type bp' \<noteq> bg_type bp \<or> bg_value bp' \<noteq> bg_value bp)"
  define s1 where "s1 = LoadBackground d s"
  define s2 where "s2 = LoadBackground d' s1"
  have u1: "unchanged bp s1" using a unfolding s1_def by (simp add: unchanged_after_load)
  have f1: "FindBackground d' s1 = Some bp'" using a by (simp add: s1_def)
  have n1: "\<not> unchanged bp' s1" using u1 a by (auto simp: unchanged_def split: option.splits)
  have l2: "lastBackground s2 = Some bp'"
    using LoadBackground_applies[OF f1 n1] by (simp add: s2_def)
  have f2: "FindBackground d s2 = Some bp" using a by (simp add: s2_def s1_def)
  have n2: "\<not> unchanged bp s2" using l2 a by (auto simp: unchanged_def)
  show "calls (LoadBackground d (LoadBackground d' (LoadBackground d s))) =
        calls (LoadBackground d' (LoadBackground d s)) @ [RunCommand (bg_value bp)]"
    using LoadBackground_applies[OF f2 n2] a by (simp add: s2_def s1_def activation_calls_def)
qed

theorem LoadBackground_command_runs_when_changed_witness:
  "FindBackground 0 command_state =
     Some \<lparr>desktop = 0, bg_type = BACKGROUND_COMMAND, bg_value = ''xsetroot -solid gray'',
           pixel = None, pixmap = None\<rparr>
   \<and> lastBackground command_state = None
   \<and> FindBackground 1 command_state =
     Some \<lparr>desktop = 1, bg_type = BACKGROUND_SOLID, bg_value = ''blue'',
           pixel = Some 255, pixmap = None\<rparr>
   \<and> calls (LoadBackground 0 command_state) = [RunCommand ''xsetroot -solid gray'']
   \<and> calls (LoadBackground 0 (LoadBackground 1 (LoadBackground 0 command_state))) =
       [RunCommand ''xsetroot -solid gray'',
        XChangeWindowAttributes [CWBackPixmap, CWBackPixel, CWBorderPixel]
          \<lparr>background_pixmap = Some 0, background_pixel = Some 255, border_pixmap = None\<rparr>,
        XClearWindow,
        RunCommand ''xsetroot -solid gray'']"
  using LoadBackground_command_runs_when_changed
    [of 0 command_state
        "\<lparr>desktop = 0, bg_type = BACKGROUND_COMMAND, bg_value = ''xsetroot -solid gray'',
          pixel = None, pixmap = None\<rparr>"
        1
        "\<lparr>desktop = 1, bg_type = BACKGROUND_SOLID, bg_value = ''blue'',
          pixel = Some 255, pixmap = None\<rparr>"]
  by (simp add: bg_eval)

lemma loaders_keep:
  "LoadSolidBackground bp s = (bp', s') \<Longrightarrow>
     desktop bp' = desktop bp \<and> bg_type bp' = bg_type bp \<and> bg_value bp' = bg_value bp
     \<and> defaultBackground s' = defaultBackground s"
  "LoadGradientBackground bp s = (bp', s') \<Longrightarrow>
     desktop bp' = desktop bp \<and> bg_type bp' = bg_type bp \<and> bg_value bp' = bg_value bp
     \<and> defaultBackground s' = defaultBackground s"
  "LoadImageBackground bp s = (bp', s') \<Longrightarrow>
     desktop bp' = desktop bp \<and> bg_type bp' = bg_type bp \<and> bg_value bp' = bg_value bp
     \<and> defaultBackground s' = defaultBackground s"
  by (auto simp: LoadSolidBackground_def LoadGradientBackground_def LoadImageBackground_def
        JXCreatePixmap_root_def emit_def Let_def split: if_splits prod.splits)

lemma StartupBackgrounds_loop_default:
  "StartupBackgrounds_loop bs s = (bs', s') \<Longrightarrow>
     map desktop bs' = map desktop bs \<and> map bg_type bs' = map bg_type bs
     \<and> map bg_value bs' = map bg_value bs
     \<and> defaultBackground s' =
         (if sentinel_nodes bs' = [] then defaultBackground s
          else Some (last (sentinel_nodes bs')))"
proof (induction bs arbitrary: s bs' s')
  case Nil
  then show ?case by (simp add: sentinel_nodes_def)
next
  case (Cons bp rest)
  obtain bp1 s1 where m: "(case bg_type bp of
               BACKGROUND_SOLID \<Rightarrow> LoadSolidBackground bp s
             | BACKGROUND_GRADIENT \<Rightarrow> LoadGradientBackground bp s
             | BACKGROUND_COMMAND \<Rightarrow> (bp, s)
             | BACKGROUND_IMAGE \<Rightarrow> LoadImageBackground bp s) = (bp1, s1)"
    by (cases "(case bg_type bp of
               BACKGROUND_SOLID \<Rightarrow> LoadSolidBackground bp s
             | BACKGROUND_GRADIENT \<Rightarrow> LoadGradientBackground bp s
             | BACKGROUND_COMMAND \<Rightarrow> (bp, s)
             | BACKGROUND_IMAGE \<Rightarrow> LoadImageBackground bp s)") auto
  have keep: "desktop bp1 = desktop bp \<and> bg_type bp1 = bg_type bp \<and> bg_value bp1 = bg_value bp
     \<and> defaultBackground s1 = defaultBackground s"
    using m loaders_keep[of bp s bp1 s1] by (cases "bg_type bp") auto
  define s2 where "s2 = (if desktop bp1 = -1 then s1\<lparr>defaultBackground := Some bp1\<rparr> else s1)"
  obtain rest' s3 where r: "StartupBackgrounds_loop rest s2 = (rest', s3)"
    by (cases "StartupBackgrounds_loop rest s2") auto
  have res: "bs' = bp1 # rest'" "s' = s3"
    using Cons.prems m r by (simp_all add: s2_def Let_def)
  note ih = Cons.IH[OF r]
  show ?case
    using ih keep by (auto simp: res s2_def sentinel_nodes_def)
qed

lemma StartupBackgrounds_default:
  "map desktop (backgrounds (StartupBackgrounds s)) = map desktop (backgrounds s)
   \<and> defaultBackground (StartupBackgrounds s) =
       (if sentinel_nodes (backgrounds (StartupBackgrounds s)) = [] then defaultBackground s
        else Some (last (sentinel_nodes (backgrounds (StartupBackgrounds s)))))"
proof -
  obtain bs' s' where l: "StartupBackgrounds_loop (backgrounds s) s = (bs', s')"
    by (cases "StartupBackgrounds_loop (backgrounds s) s") auto
  have "StartupBackgrounds s = s'\<lparr>backgrounds := bs'\<rparr>"
    by (simp add: StartupBackgrounds_def l)
  then show ?thesis using StartupBackgrounds_loop_default[OF l] by simp
qed

text \<open>
  Claim C10. \<open>StartupBackgrounds\<close> keeps the desktops of the registered nodes and sets
  \<open>defaultBackground\<close> to the node of the sentinel desktop \<open>-1\<close> that comes last in the
  list, when there is one. For a desktop that no node of the list is registered for,
  \<open>LoadBackground\<close> then works on \<open>defaultBackground\<close>: without a default it does
  nothing; with a default it issues the calls that apply the default descriptor and
  records it as the last one, unless the test "the background isn't changing" skips it.
\<close>

theorem LoadBackground_default_fallback:
  "map desktop (backgrounds (StartupBackgrounds s0)) = map desktop (backgrounds s0)
   \<and> (sentinel_nodes (backgrounds (StartupBackgrounds s0)) \<noteq> [] \<longrightarrow>
        defaultBackground (StartupBackgrounds s0) =
          Some (last (sentinel_nodes (backgrounds (StartupBackgrounds s0)))))
   \<and> ((\<forall>bp \<in> set (backgrounds s). desktop bp \<noteq> d) \<longrightarrow>
        (defaultBackground s = None \<longrightarrow> LoadBackground d s = s)
        \<and> (\<forall>bp. defaultBackground s = Some bp \<longrightarrow>
              LoadBackground d s =
                (if unchanged bp s then s
                 else s\<lparr>lastBackground := Some bp,
                        calls := calls s @ activation_calls bp\<rparr>)))"
proof (intro impI conjI allI)
  show "map desktop (backgrounds (StartupBackgrounds s0)) = map desktop (backgrounds s0)"
    using StartupBackgrounds_default[of s0] by simp
next
  assume "sentinel_nodes (backgrounds (StartupBackgrounds s0)) \<noteq> []"
  then show "defaultBackground (StartupBackgrounds s0) =
          Some (last (sentinel_nodes (backgrounds (StartupBackgrounds s0))))"
    using StartupBackgrounds_default[of s0] by simp
next
  assume u: "\<forall>bp \<in> set (backgrounds s). desktop bp \<noteq> d"
  then have f: "FindBackground d s = defaultBackground s"
    by (simp add: FindBackground_def find_None_unregistered)
  { assume "defaultBackground s = None"
    then show "LoadBackground d s = s" using f by (simp add: LoadBackground_def) }
  { fix bp assume "defaultBackground s = Some bp"
    then have "FindBackground d s = Some bp" using f by simp
    then show "LoadBackground d s =
             (if unchanged bp s then s
              else s\<lparr>lastBackground := Some bp, calls := calls s @ activation_calls bp\<rparr>)"
      by (simp add: LoadBackground_applies LoadBackground_skips) }
qed

theorem LoadBackground_default_fallback_witness:
  "map desktop (backgrounds scenario) = [- 1, 1, 0]
   \<and> defaultBackground scenario =
       Some \<lparr>desktop = - 1, bg_type = BACKGROUND_SOLID, bg_value = ''green'',
             pixel = Some 65280, pixmap = None\<rparr>
   \<and> calls (LoadBackground 2 scenario) =
       [XChangeWindowAttributes [CWBackPixmap, CWBackPixel, CWBorderPixel]
          \<lparr>background_pixmap = Some 0, background_pixel = Some 65280,
           border_pixmap = None\<rparr>,
        XClearWindow]
   \<and> LoadBackground 2 bg_start = bg_start"
  using LoadBackground_default_fallback [of bg_start scenario 2]
        LoadBackground_default_fallback [of bg_start bg_start 2]
  by (simp add: bg_eval)

section \<open>Properties of the icon module\<close>

subsection \<open>Property data\<close>

declare CreateIconFromBinary_while.simps [simp del]

lemma copy_out_of_bounds:
  "0 < n \<Longrightarrow> length input \<le> offset \<Longrightarrow>
   CreateIconFromBinary_copy input offset n = Inl OutOfBounds"
  by (cases n) (simp_all add: read_word_def)

lemma while_header_out_of_bounds:
  "offset < len \<Longrightarrow> length input \<le> Suc offset \<Longrightarrow>
   CreateIconFromBinary_while input len offset result s = Inl OutOfBounds"
  by (subst CreateIconFromBinary_while.simps) (simp add: read_word_def split: sum.splits)

text \<open>
  Claim C9 does not hold of the code. The property \<open>[65537, 65535]\<close> (two words, so
  \<open>length = 2\<close>) declares an image of 65537 by 65535 pixels. The product
  \<open>width * height\<close> is 4294967295, which still fits an \<open>unsigned int\<close>, and
  \<open>width * height + 2\<close> is 4294967297, far more than the two words that remain; but
  the \<open>unsigned int\<close> sum wraps to 1, the size test \<open>1 > 2\<close> lets the entry pass,
  and the copy loop reads \<open>input[2]\<close>, past the supplied length. With one word left
  after a well-formed image, as in \<open>[1, 1, 0xFF000000, 7]\<close>, the loop reads the height
  \<open>input[4]\<close> before any test, also past the supplied length.
\<close>

theorem CreateIconFromBinary_reads_out_of_bounds:
  "CreateIconFromBinary (Some [65537, 65535]) 2 s = Inl OutOfBounds
   \<and> CreateIconFromBinary (Some [1, 1, 4278190080, 7]) 4 s = Inl OutOfBounds"
  by (simp add: CreateIconFromBinary_def CreateIconFromBinary_while.simps[of _ _ 0]
        read_word_def UINT_MOD_def copy_out_of_bounds CreateIcon_def update_icon_def
        deref_def while_header_out_of_bounds)

subsection \<open>Scaled icons are memoized\<close>

lemma probe_nodes_irrelevant [simp]:
  "GetScaledIcon_probe (im\<lparr>nodes := ns'\<rparr>) fg nw nh i ns = GetScaledIcon_probe im fg nw nh i ns"
  by (induction ns arbitrary: i) auto

lemma probe_rgba:
  "\<not> bitmap im \<Longrightarrow>
   GetScaledIcon_probe im fg' nw nh i ns = GetScaledIcon_probe im fg nw nh i ns"
  by (induction ns arbitrary: i) auto

lemma size_nodes_irrelevant:
  "GetScaledIcon_size icon (im\<lparr>nodes := ns'\<rparr>) rw rh = GetScaledIcon_size icon im rw rh"
  by (simp add: GetScaledIcon_size_def Let_def)

lemma GetScaledIcon_hit:
  "GetScaledIcon_size icon im rw rh = Some (nw, nh) \<Longrightarrow>
   GetScaledIcon_probe im fg nw nh 0 (nodes im) = Some i \<Longrightarrow>
   GetScaledIcon icon im fg rw rh x = Some (i, im, x)"
  by (simp add: GetScaledIcon_def)

lemma GetScaledIcon_cases:
  assumes "GetScaledIcon icon im fg rw rh x = Some (i, im', x')"
  obtains (hit) nw nh where "GetScaledIcon_size icon im rw rh = Some (nw, nh)"
      "GetScaledIcon_probe im fg nw nh 0 (nodes im) = Some i" "im' = im" "x' = x"
  | (miss) nw nh np where "GetScaledIcon_size icon im rw rh = Some (nw, nh)"
      "GetScaledIcon_probe im fg nw nh 0 (nodes im) = None" "i = 0"
      "im' = im\<lparr>nodes := np # nodes im\<rparr>" "sn_width np = nw" "sn_height np = nh"
      "sn_fg np = fg"
proof -
  obtain nw nh where sz: "GetScaledIcon_size icon im rw rh = Some (nw, nh)"
    using assms by (cases "GetScaledIcon_size icon im rw rh") (auto simp: GetScaledIcon_def)
  show thesis
  proof (cases "GetScaledIcon_probe im fg nw nh 0 (nodes im)")
    case (Some j)
    then have "GetScaledIcon icon im fg rw rh x = Some (j, im, x)"
      using sz by (rule GetScaledIcon_hit[rotated])
    then show thesis using assms sz Some hit by simp
  next
    case None
    have "\<exists>np. i = 0 \<and> im' = im\<lparr>nodes := np # nodes im\<rparr> \<and> sn_width np = nw
            \<and> sn_height np = nh \<and> sn_fg np = fg"
      using assms sz None
      by (auto simp add: GetScaledIcon_def Let_def split_beta split: Option.bind_splits
            intro!: exI[of _ "\<lparr>sn_fg = fg, sn_width = nw, sn_height = nh,
                 sn_image =
                   fst (JXCreatePixmap nw nh
                         (depth (snd (JXCreatePixmap nw nh 1 x)))
                         (snd (JXCreatePixmap nw nh 1 x))),
                 sn_mask = fst (JXCreatePixmap nw nh 1 x)\<rparr>"])
    then show thesis using miss sz None by blast
  qed
qed

lemma probe_Some:
  "GetScaledIcon_probe im fg nw nh k ns = Some i \<Longrightarrow>
   k \<le> i \<and> i < k + length ns
   \<and> sn_width (ns ! (i - k)) = nw \<and> sn_height (ns ! (i - k)) = nh
   \<and> (bitmap im \<longrightarrow> sn_fg (ns ! (i - k)) = fg)"
proof (induction ns arbitrary: k)
  case Nil
  then show ?case by simp
next
  case (Cons np ns)
  show ?case
  proof (cases "sn_width np = nw \<and> sn_height np = nh \<and> (\<not> bitmap im \<or> sn_fg np = fg)")
    case True
    then have "i = k" using Cons.prems by simp
    then show ?thesis using True by auto
  next
    case False
    then have "GetScaledIcon_probe im fg nw nh (Suc k) ns = Some i" using Cons.prems by auto
    from Cons.IH [OF this] have ih: "Suc k \<le> i" "i < Suc k + length ns"
      "sn_width (ns ! (i - Suc k)) = nw" "sn_height (ns ! (i - Suc k)) = nh"
      "bitmap im \<longrightarrow> sn_fg (ns ! (i - Suc k)) = fg" by simp_all
    have "i - k = Suc (i - Suc k)" using ih(1) by simp
    then show ?thesis using ih by simp
  qed
qed

lemma probe_None:
  "GetScaledIcon_probe im fg nw nh k ns = None \<longleftrightarrow>
   (\<forall>np \<in> set ns. \<not> (sn_width np = nw \<and> sn_height np = nh \<and> (bitmap im \<longrightarrow> sn_fg np = fg)))"
  by (induction ns arbitrary: k) auto

lemma probe_key:
  "(bitmap im \<longrightarrow> fg' = fg) \<Longrightarrow>
   GetScaledIcon_probe im fg' nw nh i ns = GetScaledIcon_probe im fg nw nh i ns"
  by (cases "bitmap im") (simp_all add: probe_rgba [of im fg'])

lemma GetScaledIcon_keyed:
  assumes "GetScaledIcon icon im fg rw rh x = Some (i, im', x')"
  shows "\<exists>nw nh. GetScaledIcon_size icon im rw rh = Some (nw, nh)
           \<and> i < length (nodes im')
           \<and> sn_width (nodes im' ! i) = nw \<and> sn_height (nodes im' ! i) = nh
           \<and> (bitmap im' \<longrightarrow> sn_fg (nodes im' ! i) = fg)
           \<and> ((\<exists>np \<in> set (nodes im). sn_width np = nw \<and> sn_height np = nh
                   \<and> (bitmap im \<longrightarrow> sn_fg np = fg)) \<longrightarrow> im' = im \<and> x' = x)
           \<and> (\<forall>fg' rw' rh'.
                 GetScaledIcon_size icon im' rw' rh' = Some (nw, nh) \<and> (bitmap im' \<longrightarrow> fg' = fg)
                 \<longrightarrow> GetScaledIcon icon im' fg' rw' rh' x' = Some (i, im', x'))"
  using assms
proof (cases rule: GetScaledIcon_cases)
  case (hit nw nh)
  note p = probe_Some [OF hit(2)]
  have again: "GetScaledIcon icon im' fg' rw' rh' x' = Some (i, im', x')"
    if "GetScaledIcon_size icon im' rw' rh' = Some (nw, nh)" "bitmap im' \<longrightarrow> fg' = fg"
    for fg' rw' rh'
  proof -
    have "GetScaledIcon_probe im fg' nw nh 0 (nodes im) = Some i"
      using probe_key [of im fg' fg nw nh 0 "nodes im"] that(2) hit by simp
    then show ?thesis using that(1) hit by (simp add: GetScaledIcon_hit)
  qed
  have f: "i < length (nodes im')" "sn_width (nodes im' ! i) = nw"
    "sn_height (nodes im' ! i) = nh" "bitmap im' \<longrightarrow> sn_fg (nodes im' ! i) = fg"
    using p hit(3) by simp_all
  have a: "\<forall>fg' rw' rh'.
             GetScaledIcon_size icon im' rw' rh' = Some (nw, nh) \<and> (bitmap im' \<longrightarrow> fg' = fg)
             \<longrightarrow> GetScaledIcon icon im' fg' rw' rh' x' = Some (i, im', x')"
    using again by blast
  show ?thesis using hit(1) hit(3) hit(4) f a by blast
next
  case (miss nw nh np)
  have none: "\<not> (\<exists>np \<in> set (nodes im). sn_width np = nw \<and> sn_height np = nh
                   \<and> (bitmap im \<longrightarrow> sn_fg np = fg))"
    using miss(2) by (simp add: probe_None)
  have again: "GetScaledIcon icon im' fg' rw' rh' x' = Some (i, im', x')"
    if "GetScaledIcon_size icon im' rw' rh' = Some (nw, nh)" "bitmap im' \<longrightarrow> fg' = fg"
    for fg' rw' rh'
  proof -
    have "GetScaledIcon_probe im' fg' nw nh 0 (nodes im') = Some 0"
      using that(2) miss by auto
    then show ?thesis using that(1) miss(3) by (simp add: GetScaledIcon_hit)
  qed
  have f: "i < length (nodes im')" "sn_width (nodes im' ! i) = nw"
    "sn_height (nodes im' ! i) = nh" "bitmap im' \<longrightarrow> sn_fg (nodes im' ! i) = fg"
    using miss by simp_all
  have a: "\<forall>fg' rw' rh'.
             GetScaledIcon_size icon im' rw' rh' = Some (nw, nh) \<and> (bitmap im' \<longrightarrow> fg' = fg)
             \<longrightarrow> GetScaledIcon icon im' fg' rw' rh' x' = Some (i, im', x')"
    using again by blast
  show ?thesis using miss(1) none f a by blast
qed

text \<open>
  A request for another key puts its node before the others, and the first node that
  matches a key stays the first that matches it.
\<close>

lemma probe_shift:
  "GetScaledIcon_probe im fg nw nh (Suc k) ns = map_option Suc (GetScaledIcon_probe im fg nw nh k ns)"
  by (induction ns arbitrary: k) auto

lemma GetScaledIcon_keeps:
  assumes g: "GetScaledIcon icon im fg0 rw0 rh0 x = Some (k, im1, x1)"
    and p: "GetScaledIcon_probe im fg nw nh 0 (nodes im) = Some i"
  shows "\<exists>j. GetScaledIcon_probe im1 fg nw nh 0 (nodes im1) = Some j
              \<and> nodes im1 ! j = nodes im ! i"
  using g
proof (cases rule: GetScaledIcon_cases)
  case (hit nw0 nh0)
  then show ?thesis using p by simp
next
  case (miss nw0 nh0 np)
  note pi = probe_Some [OF p]
  have mem: "nodes im ! i \<in> set (nodes im)" using pi by simp
  have none: "\<forall>n \<in> set (nodes im).
     \<not> (sn_width n = nw0 \<and> sn_height n = nh0 \<and> (bitmap im \<longrightarrow> sn_fg n = fg0))"
    using miss(2) by (simp add: probe_None)
  have nomatch: "\<not> (sn_width np = nw \<and> sn_height np = nh \<and> (\<not> bitmap im \<or> sn_fg np = fg))"
  proof
    assume m: "sn_width np = nw \<and> sn_height np = nh \<and> (\<not> bitmap im \<or> sn_fg np = fg)"
    have "sn_width (nodes im ! i) = nw0 \<and> sn_height (nodes im ! i) = nh0
          \<and> (bitmap im \<longrightarrow> sn_fg (nodes im ! i) = fg0)"
      using pi m miss(5-7) by auto
    then show False using none mem by blast
  qed
  have "GetScaledIcon_probe im1 fg nw nh 0 (nodes im1) =
        GetScaledIcon_probe im fg nw nh (Suc 0) (nodes im)"
    using miss(4) nomatch by auto
  also have "\<dots> = Some (Suc i)" using p by (simp add: probe_shift)
  finally show ?thesis using miss(4) by simp
qed

lemma GetScaledIcon_seq_keeps:
  "GetScaledIcon_seq reqs icon im x = Some (im2, x2) \<Longrightarrow>
   GetScaledIcon_probe im fg nw nh 0 (nodes im) = Some i \<Longrightarrow>
   \<exists>j. GetScaledIcon_probe im2 fg nw nh 0 (nodes im2) = Some j \<and> nodes im2 ! j = nodes im ! i"
proof (induction reqs arbitrary: im x i)
  case Nil
  then show ?case by simp
next
  case (Cons req reqs)
  obtain fg0 rw0 rh0 where req: "req = (fg0, rw0, rh0)" by (cases req)
  from Cons.prems(1) req obtain k im1 x1 where
    g: "GetScaledIcon icon im fg0 rw0 rh0 x = Some (k, im1, x1)"
    and rest: "GetScaledIcon_seq reqs icon im1 x1 = Some (im2, x2)"
    by (auto split: Option.bind_splits)
  from GetScaledIcon_keeps [OF g Cons.prems(2)] obtain j where
    j: "GetScaledIcon_probe im1 fg nw nh 0 (nodes im1) = Some j" "nodes im1 ! j = nodes im ! i"
    by blast
  from Cons.IH [OF rest j(1)] show ?case using j(2) by auto
qed

lemma GetScaledIcon_probes:
  assumes "GetScaledIcon icon im fg rw rh x = Some (i, im', x')"
  shows "\<exists>nw nh. GetScaledIcon_size icon im rw rh = Some (nw, nh)
           \<and> GetScaledIcon_probe im' fg nw nh 0 (nodes im') = Some i"
  using assms
proof (cases rule: GetScaledIcon_cases)
  case (hit nw nh)
  then show ?thesis by simp
next
  case (miss nw nh np)
  then show ?thesis by simp
qed

text \<open>
  Claim C2. When a call of \<open>GetScaledIcon\<close> returns the node at position \<open>i\<close>, leaving
  the image as \<open>im'\<close> and the server as \<open>x'\<close>, that node has the effective size
  \<open>(nwidth, nheight)\<close> of the request and, for a bitmap, the requested foreground. When
  the image already held a node of that size (and, for a bitmap, that foreground), nothing
  was added and no pixmap was created. Every later request with the same effective size,
  whatever size was asked for, and for a bitmap the same foreground, returns that same
  node and changes nothing: at once it is the node at the same position, and after any
  sequence of other requests it is still the same node, further down the list. When the
  image is not a bitmap this holds for every foreground.
\<close>

theorem GetScaledIcon_memoized:
  assumes "GetScaledIcon icon im fg rw rh x = Some (i, im', x')"
  shows "\<exists>nw nh. GetScaledIcon_size icon im rw rh = Some (nw, nh)
           \<and> i < length (nodes im')
           \<and> sn_width (nodes im' ! i) = nw \<and> sn_height (nodes im' ! i) = nh
           \<and> (bitmap im' \<longrightarrow> sn_fg (nodes im' ! i) = fg)
           \<and> ((\<exists>np \<in> set (nodes im). sn_width np = nw \<and> sn_height np = nh
                   \<and> (bitmap im \<longrightarrow> sn_fg np = fg)) \<longrightarrow> im' = im \<and> x' = x)
           \<and> (\<forall>fg' rw' rh'.
                 GetScaledIcon_size icon im' rw' rh' = Some (nw, nh) \<and> (bitmap im' \<longrightarrow> fg' = fg)
                 \<longrightarrow> GetScaledIcon icon im' fg' rw' rh' x' = Some (i, im', x'))
           \<and> (\<forall>reqs im2 x2 fg' rw' rh'.
                 GetScaledIcon_seq reqs icon im' x' = Some (im2, x2)
                 \<and> GetScaledIcon_size icon im2 rw' rh' = Some (nw, nh)
                 \<and> (bitmap im2 \<longrightarrow> fg' = fg)
                 \<longrightarrow> (\<exists>j. GetScaledIcon icon im2 fg' rw' rh' x2 = Some (j, im2, x2)
                           \<and> nodes im2 ! j = nodes im' ! i))"
proof -
  from GetScaledIcon_keyed [OF assms] obtain nw nh where
    m: "GetScaledIcon_size icon im rw rh = Some (nw, nh)"
       "i < length (nodes im')"
       "sn_width (nodes im' ! i) = nw" "sn_height (nodes im' ! i) = nh"
       "bitmap im' \<longrightarrow> sn_fg (nodes im' ! i) = fg"
       "(\<exists>np \<in> set (nodes im). sn_width np = nw \<and> sn_height np = nh
                   \<and> (bitmap im \<longrightarrow> sn_fg np = fg)) \<longrightarrow> im' = im \<and> x' = x"
       "\<forall>fg' rw' rh'.
                 GetScaledIcon_size icon im' rw' rh' = Some (nw, nh) \<and> (bitmap im' \<longrightarrow> fg' = fg)
                 \<longrightarrow> GetScaledIcon icon im' fg' rw' rh' x' = Some (i, im', x')"
    by blast
  from GetScaledIcon_probes [OF assms] m(1)
  have p: "GetScaledIcon_probe im' fg nw nh 0 (nodes im') = Some i" by auto
  have later: "\<exists>j. GetScaledIcon icon im2 fg' rw' rh' x2 = Some (j, im2, x2)
                    \<and> nodes im2 ! j = nodes im' ! i"
    if s: "GetScaledIcon_seq reqs icon im' x' = Some (im2, x2)"
      and z: "GetScaledIcon_size icon im2 rw' rh' = Some (nw, nh)"
      and b: "bitmap im2 \<longrightarrow> fg' = fg"
    for reqs im2 x2 fg' rw' rh'
  proof -
    from GetScaledIcon_seq_keeps [OF s p] obtain j where
      j: "GetScaledIcon_probe im2 fg nw nh 0 (nodes im2) = Some j" "nodes im2 ! j = nodes im' ! i"
      by blast
    have "GetScaledIcon_probe im2 fg' nw nh 0 (nodes im2) = Some j"
      using probe_key [of im2 fg' fg nw nh 0 "nodes im2"] b j(1) by simp
    then have "GetScaledIcon icon im2 fg' rw' rh' x2 = Some (j, im2, x2)"
      using z by (simp add: GetScaledIcon_hit)
    then show ?thesis using j(2) by blast
  qed
  then have l: "\<forall>reqs im2 x2 fg' rw' rh'.
                 GetScaledIcon_seq reqs icon im' x' = Some (im2, x2)
                 \<and> GetScaledIcon_size icon im2 rw' rh' = Some (nw, nh)
                 \<and> (bitmap im2 \<longrightarrow> fg' = fg)
                 \<longrightarrow> (\<exists>j. GetScaledIcon icon im2 fg' rw' rh' x2 = Some (j, im2, x2)
                           \<and> nodes im2 ! j = nodes im' ! i)"
    by blast
  show ?thesis using m l by blast
qed

lemmas c_arith = c_int_def c_mul_def c_shl16_def c_shr16_def c_div_def INT_MIN_def INT_MAX_def

theorem GetScaledIcon_memoized_witness:
  "GetScaledIcon example_icon example_image 7 24 24 example_display =
     Some (0, rendered_image, rendered_display)
   \<and> GetScaledIcon_size example_icon example_image 24 24 = Some (24, 24)
   \<and> GetScaledIcon_size example_icon rendered_image 24 30 = Some (24, 24)
   \<and> \<not> bitmap rendered_image
   \<and> GetScaledIcon example_icon rendered_image 9 24 30 rendered_display =
       Some (0, rendered_image, rendered_display)
   \<and> GetScaledIcon example_icon rendered_image 7 32 32 rendered_display =
       Some (0, rendered_twice_image, rendered_twice_display)
   \<and> GetScaledIcon_seq [(7, 32, 32)] example_icon rendered_image rendered_display =
       Some (rendered_twice_image, rendered_twice_display)
   \<and> GetScaledIcon example_icon rendered_twice_image 7 24 24 rendered_twice_display =
       Some (1, rendered_twice_image, rendered_twice_display)
   \<and> nodes rendered_twice_image ! 1 = nodes rendered_image ! 0"
proof -
  have h: "GetScaledIcon example_icon example_image 7 24 24 example_display =
     Some (0, rendered_image, rendered_display)"
    by (simp add: GetScaledIcon_def GetScaledIcon_size_def example_icon_def example_image_def
          example_display_def rendered_image_def rendered_display_def JXCreatePixmap_def
          c_arith Let_def)
  have s1: "GetScaledIcon_size example_icon example_image 24 24 = Some (24, 24)"
    by (simp add: GetScaledIcon_size_def example_icon_def example_image_def c_arith Let_def)
  have s2: "GetScaledIcon_size example_icon rendered_image 24 30 = Some (24, 24)"
    by (simp add: GetScaledIcon_size_def example_icon_def example_image_def rendered_image_def
          c_arith Let_def)
  have b: "\<not> bitmap rendered_image"
    by (simp add: rendered_image_def example_image_def)
  have m: "GetScaledIcon example_icon rendered_image 7 32 32 rendered_display =
       Some (0, rendered_twice_image, rendered_twice_display)"
    by (simp add: GetScaledIcon_def GetScaledIcon_size_def example_icon_def example_image_def
          rendered_image_def rendered_display_def rendered_twice_image_def
          rendered_twice_display_def JXCreatePixmap_def c_arith Let_def)
  have t: "GetScaledIcon example_icon rendered_twice_image 7 24 24 rendered_twice_display =
       Some (1, rendered_twice_image, rendered_twice_display)"
    by (simp add: GetScaledIcon_def GetScaledIcon_size_def example_icon_def example_image_def
          rendered_twice_image_def c_arith Let_def)
  have q: "GetScaledIcon_seq [(7, 32, 32)] example_icon rendered_image rendered_display =
       Some (rendered_twice_image, rendered_twice_display)"
    by (simp add: m)
  have n: "nodes rendered_twice_image ! 1 = nodes rendered_image ! 0"
    by (simp add: rendered_twice_image_def rendered_image_def)
  show ?thesis using h s1 s2 b m q t n GetScaledIcon_memoized [OF h] by simp
qed

subsection \<open>The best image when no size is requested\<close>

lemma c_mul_area: "c_int (area im) \<noteq> None \<Longrightarrow> c_mul (width im) (height im) = Some (area im)"
  by (auto simp: c_mul_def area_def c_int_def split: if_splits)

lemma GetBestImage_loop_unconstrained:
  assumes "\<forall>im \<in> set rest. c_int (area im) \<noteq> None" and "c_int (area best) \<noteq> None"
  shows "GetBestImage_loop 0 0 (bi, best) i rest = Some bi \<and> (\<forall>im \<in> set rest. area best \<le> area im)
       \<or> (\<exists>k < length rest. GetBestImage_loop 0 0 (bi, best) i rest = Some (i + k)
             \<and> area (rest ! k) < area best
             \<and> (\<forall>j < length rest. area (rest ! k) \<le> area (rest ! j))
             \<and> (\<forall>j < k. area (rest ! k) < area (rest ! j)))"
  using assms
proof (induction rest arbitrary: bi best i)
  case Nil
  then show ?case by simp
next
  case (Cons ip rest)
  have fb: "c_mul (width best) (height best) = Some (area best)"
    and fi: "c_mul (width ip) (height ip) = Some (area ip)"
    using Cons.prems by (simp_all add: c_mul_area)
  show ?case
  proof (cases "area ip < area best")
    case True
    have step: "GetBestImage_loop 0 0 (bi, best) i (ip # rest) =
                GetBestImage_loop 0 0 (i, ip) (Suc i) rest"
      using True by (simp add: fb fi)
    from Cons.IH[of ip i "Suc i"] Cons.prems
    consider (a) "GetBestImage_loop 0 0 (i, ip) (Suc i) rest = Some i"
                 "\<forall>im \<in> set rest. area ip \<le> area im"
      | (b) k where "k < length rest"
          "GetBestImage_loop 0 0 (i, ip) (Suc i) rest = Some (Suc i + k)"
          "area (rest ! k) < area ip" "\<forall>j < length rest. area (rest ! k) \<le> area (rest ! j)"
          "\<forall>j < k. area (rest ! k) < area (rest ! j)"
      by auto
    then show ?thesis
    proof cases
      case a
      have "\<forall>j < length (ip # rest). area ((ip # rest) ! 0) \<le> area ((ip # rest) ! j)"
        using a(2) by (auto simp: nth_Cons split: nat.splits)
      then show ?thesis using a True step
        by (intro disjI2 exI[of _ 0]) simp
    next
      case b
      have "\<forall>j < length (ip # rest). area ((ip # rest) ! Suc k) \<le> area ((ip # rest) ! j)"
        using b by (auto simp: nth_Cons split: nat.splits)
      moreover have "\<forall>j < Suc k. area ((ip # rest) ! Suc k) < area ((ip # rest) ! j)"
        using b by (auto simp: nth_Cons split: nat.splits)
      ultimately show ?thesis using b True step
        by (intro disjI2 exI[of _ "Suc k"]) auto
    qed
  next
    case False
    have step: "GetBestImage_loop 0 0 (bi, best) i (ip # rest) =
                GetBestImage_loop 0 0 (bi, best) (Suc i) rest"
      using False by (simp add: fb fi)
    from Cons.IH[of best bi "Suc i"] Cons.prems
    consider (a) "GetBestImage_loop 0 0 (bi, best) (Suc i) rest = Some bi"
                 "\<forall>im \<in> set rest. area best \<le> area im"
      | (b) k where "k < length rest"
          "GetBestImage_loop 0 0 (bi, best) (Suc i) rest = Some (Suc i + k)"
          "area (rest ! k) < area best" "\<forall>j < length rest. area (rest ! k) \<le> area (rest ! j)"
          "\<forall>j < k. area (rest ! k) < area (rest ! j)"
      by auto
    then show ?thesis
    proof cases
      case a
      then show ?thesis using False step by auto
    next
      case b
      have "\<forall>j < length (ip # rest). area ((ip # rest) ! Suc k) \<le> area ((ip # rest) ! j)"
        using b False by (auto simp: nth_Cons split: nat.splits)
      moreover have "\<forall>j < Suc k. area ((ip # rest) ! Suc k) < area ((ip # rest) ! j)"
        using b False by (auto simp: nth_Cons split: nat.splits)
      ultimately show ?thesis using b step
        by (intro disjI2 exI[of _ "Suc k"]) auto
    qed
  qed
qed

text \<open>
  With width 0 and height 0 both overlaps are 0 in every comparison, so the comparison of
  the areas decides each step: for an icon with at least one image, all of areas that fit
  an \<open>int\<close>, \<open>GetBestImage\<close> returns the first image of least area
  \<open>width * height\<close>.
\<close>

lemma GetBestImage_least_area:
  assumes "images icon \<noteq> []" and "\<forall>im \<in> set (images icon). c_int (area im) \<noteq> None"
  shows "\<exists>i < length (images icon).
           GetBestImage icon 0 0 = Some i
           \<and> (\<forall>j < length (images icon). area (images icon ! i) \<le> area (images icon ! j))
           \<and> (\<forall>j < i. area (images icon ! i) < area (images icon ! j))"
proof -
  obtain im rest where ims: "images icon = im # rest"
    using assms(1) by (cases "images icon") auto
  have g: "GetBestImage icon 0 0 = GetBestImage_loop 0 0 (0, im) 1 rest"
    by (simp add: GetBestImage_def ims)
  from GetBestImage_loop_unconstrained[of rest im 0 1] assms(2) ims
  consider (a) "GetBestImage_loop 0 0 (0, im) 1 rest = Some 0"
               "\<forall>x \<in> set rest. area im \<le> area x"
    | (b) k where "k < length rest" "GetBestImage_loop 0 0 (0, im) 1 rest = Some (1 + k)"
        "area (rest ! k) < area im" "\<forall>j < length rest. area (rest ! k) \<le> area (rest ! j)"
        "\<forall>j < k. area (rest ! k) < area (rest ! j)"
    by auto
  then show ?thesis
  proof cases
    case a
    have "\<forall>j < length (im # rest). area ((im # rest) ! 0) \<le> area ((im # rest) ! j)"
      using a(2) by (auto simp: nth_Cons split: nat.splits)
    then show ?thesis using a g ims by (intro exI[of _ 0]) simp
  next
    case b
    have "\<forall>j < length (im # rest). area ((im # rest) ! Suc k) \<le> area ((im # rest) ! j)"
      using b by (auto simp: nth_Cons split: nat.splits)
    moreover have "\<forall>j < Suc k. area ((im # rest) ! Suc k) < area ((im # rest) ! j)"
      using b by (auto simp: nth_Cons split: nat.splits)
    ultimately show ?thesis using b g ims by (intro exI[of _ "Suc k"]) auto
  qed
qed

text \<open>
  Claim C3 does not hold of the code. The comment at the head of \<open>GetBestImage\<close> says
  "If no size is specified, use the largest", and the claim says that no comparison is
  made and the first image is returned. The code does neither: with width 0 and height 0
  the overlaps are equal, the branch \<open>other_area < best_area\<close> is taken, and the image
  of the smaller area replaces the running best. For an icon whose images are 32 by 32
  and then 16 by 16 the result is the second image (position 1), the 16 by 16 one, which is
  neither the first nor the largest; for an icon with 16 by 16 first the result is
  position 0, again the 16 by 16 image and not the largest.
\<close>

theorem GetBestImage_unconstrained_returns_smallest:
  "images icon_32_16 = [sized_image 32 32, sized_image 16 16]
   \<and> GetBestImage icon_32_16 0 0 = Some 1
   \<and> images icon_16_32 = [sized_image 16 16, sized_image 32 32]
   \<and> GetBestImage icon_16_32 0 0 = Some 0"
  by (simp add: GetBestImage_def icon_32_16_def icon_16_32_def sized_image_def
        c_mul_def c_int_def INT_MIN_def INT_MAX_def)

subsection \<open>The effective size at the native size\<close>

lemma c_div_nonneg:
  assumes a: "0 \<le> a" and b: "0 < b" and m: "a \<le> 2147483647"
  shows "c_div a b = Some (a div b)"
proof -
  have q0: "0 \<le> a div b" using a b by (simp add: pos_imp_zdiv_nonneg_iff)
  have qa: "a div b \<le> a" using a b by (cases "a = 0") (simp_all add: int_div_le_self)
  have e: "sgn a * sgn b * (\<bar>a\<bar> div \<bar>b\<bar>) = a div b"
    using a b by (cases "a = 0") (simp_all add: sgn_if)
  have "c_div a b = c_int (a div b)" using b by (simp only: c_div_def e) simp
  also have "\<dots> = Some (a div b)" using q0 qa m by (simp add: c_int_def INT_MIN_def INT_MAX_def)
  finally show ?thesis .
qed

lemma size_closed_form:
  assumes pa: "preserveAspect icon" and w: "0 < width im" "width im < 32768" and h: "0 < height im"
    and R_def: "R = (width im * 65536) div height im"
    and nw_def: "nw = min (width im) ((height im * R) div 65536)"
    and nh_def: "nh = min (height im) ((nw * 65536) div R)"
  shows "GetScaledIcon_size icon im (width im) (height im) =
           (if R = 0 then None else Some (max 1 ((nh * R) div 65536), max 1 nh))"
proof -
  let ?W = "width im" and ?H = "height im"
  have R0: "0 \<le> R" using w h by (simp add: R_def pos_imp_zdiv_nonneg_iff)
  have HR: "?H * R \<le> ?W * 65536"
    unfolding R_def using h by (metis mult.commute div_mult_mod_eq[of "?W * 65536" ?H] add.commute le_add_same_cancel2 pos_mod_sign)
  have HR0: "0 \<le> ?H * R" using h R0 by simp
  have s1: "c_shl16 ?W = Some (?W * 65536)" using w by (simp add: c_arith)
  have s2: "c_div (?W * 65536) ?H = Some R" using w h by (simp add: c_div_nonneg R_def)
  have s3: "c_mul ?H R = Some (?H * R)" using HR HR0 w by (simp add: c_arith)
  have nw0: "0 \<le> nw" "nw \<le> ?W" using w HR0 by (simp_all add: nw_def pos_imp_zdiv_nonneg_iff)
  have s4: "c_shl16 nw = Some (nw * 65536)" using nw0 w by (simp add: c_arith)
  show ?thesis
  proof (cases "R = 0")
    case True
    then show ?thesis using pa w h s1 s2 s3 s4
      by (simp add: GetScaledIcon_size_def Let_def c_shr16_def nw_def[symmetric] c_div_def)
  next
    case False
    then have Rp: "0 < R" using R0 by simp
    have s5: "c_div (nw * 65536) R = Some ((nw * 65536) div R)"
      using nw0 w Rp by (simp add: c_div_nonneg)
    have q0: "0 \<le> (nw * 65536) div R" using nw0 Rp by (simp add: pos_imp_zdiv_nonneg_iff)
    have nh0: "0 \<le> nh" "nh \<le> ?H" using q0 h by (simp_all add: nh_def)
    have le: "nh * R \<le> ?H * R" using nh0 Rp by (intro mult_right_mono) simp_all
    have ge: "0 \<le> nh * R" using nh0 Rp by simp
    have "nh * R \<le> 2147483647" using le HR w by linarith
    then have s6: "c_mul nh R = Some (nh * R)" using ge by (simp add: c_arith)
    show ?thesis using False pa w h s1 s2 s3 s4 s5 s6
      by (simp add: GetScaledIcon_size_def Let_def c_shr16_def nw_def[symmetric] nh_def[symmetric])
  qed
qed


lemma dvd_roundtrip:
  assumes w: "0 < (W::int)" and h: "0 < H" and d: "H dvd W * 65536"
    and R_def: "R = (W * 65536) div H"
    and nw_def: "nw = min W ((H * R) div 65536)"
    and nh_def: "nh = min H ((nw * 65536) div R)"
  shows "R \<noteq> 0 \<and> max 1 ((nh * R) div 65536) = W \<and> max 1 nh = H"
proof -
  have HR: "H * R = W * 65536" using d by (simp add: R_def)
  have Rp: "R \<noteq> 0" using HR w by auto
  have nw: "nw = W" by (simp add: nw_def HR)
  have "(W * 65536) div R = H" using HR Rp by (metis nonzero_mult_div_cancel_right)
  then have nh: "nh = H" by (simp add: nh_def nw)
  show ?thesis using Rp w h by (simp add: nh HR)
qed

lemma not_dvd_no_roundtrip:
  assumes w: "0 < (W::int)" and h: "0 < H" and d: "\<not> H dvd W * 65536"
    and R_def: "R = (W * 65536) div H"
    and nw_def: "nw = min W ((H * R) div 65536)"
    and nh_def: "nh = min H ((nw * 65536) div R)"
    and Rp: "R \<noteq> 0"
  shows "\<not> (max 1 ((nh * R) div 65536) = W \<and> max 1 nh = H)"
proof
  assume a: "max 1 ((nh * R) div 65536) = W \<and> max 1 nh = H"
  have R0: "0 < R" using Rp w h by (metis R_def less_le mult_pos_pos pos_imp_zdiv_nonneg_iff zero_less_numeral)
  have m: "0 < (W * 65536) mod H" using d h by (metis dvd_eq_mod_eq_0 less_le pos_mod_sign)
  have "H * R + (W * 65536) mod H = W * 65536" by (simp add: R_def)
  then have HR: "H * R < W * 65536" using m by linarith
  have HR0: "0 \<le> H * R" using h R0 by simp
  have q0: "0 \<le> (H * R) div 65536" using HR0 by (simp add: pos_imp_zdiv_nonneg_iff)
  have qW: "(H * R) div 65536 < W" using HR by (simp add: div_less_iff_less_mult)
  have nw0: "0 \<le> nw" "nw < W" using q0 qW w by (simp_all add: nw_def)
  have nh0: "0 \<le> nh" "nh \<le> H" using nw0 R0 h by (simp_all add: nh_def pos_imp_zdiv_nonneg_iff)
  have "nh * R \<le> H * R" using nh0 R0 by (intro mult_right_mono) simp_all
  then have "nh * R < W * 65536" using HR by linarith
  then have lt: "(nh * R) div 65536 < W" by (simp add: div_less_iff_less_mult)
  have a1: "max 1 ((nh * R) div 65536) = W" and a2: "max 1 nh = H" using a by simp_all
  have W1: "W = 1" using lt a1 by linarith
  then have "nw = 0" using nw0 by simp
  then have "nh = 0" using h by (simp add: nh_def)
  then have "H = 1" using a2 by simp
  then show False using d by simp
qed


text \<open>
  Claim C6, as stated, fails: a 16 by 48 image requested at 16 by 48 with the aspect
  preserved is rendered at 14 by 45. The ratio \<open>(16 << 16) / 48\<close> is truncated to
  21845, and each of the three steps that use it rounds down again.
\<close>

theorem GetScaledIcon_size_native_counterexample:
  "preserveAspect example_icon
   \<and> GetScaledIcon_size example_icon (sized_image 16 48) 16 48 = Some (14, 45)"
  by (simp add: GetScaledIcon_size_def example_icon_def sized_image_def c_arith Let_def)

lemma size_bounds:
  assumes w: "0 < (W::int)" and h: "0 < H" and Rp: "0 < R"
    and R_def: "R = (W * 65536) div H"
    and nw_def: "nw = min W ((H * R) div 65536)"
    and nh_def: "nh = min H ((nw * 65536) div R)"
  shows "max 1 ((nh * R) div 65536) \<le> W \<and> max 1 nh \<le> H"
proof -
  have "H * R + (W * 65536) mod H = W * 65536" by (simp add: R_def)
  moreover have "0 \<le> (W * 65536) mod H" using h by simp
  ultimately have HR: "H * R \<le> W * 65536" by linarith
  have HR0: "0 \<le> H * R" using h Rp by simp
  have nw0: "0 \<le> nw" using w HR0 by (simp add: nw_def pos_imp_zdiv_nonneg_iff)
  have nh0: "0 \<le> nh" "nh \<le> H" using nw0 Rp h by (simp_all add: nh_def pos_imp_zdiv_nonneg_iff)
  have "nh * R \<le> H * R" using nh0 Rp by (intro mult_right_mono) simp_all
  then have "nh * R \<le> W * 65536" using HR by linarith
  then have "(nh * R) div 65536 \<le> (W * 65536) div 65536" by (intro zdiv_mono1) simp_all
  then have "(nh * R) div 65536 \<le> W" by simp
  then show ?thesis using w h nh0 by simp
qed

text \<open>
  An image more than 65536 times as high as it is wide has the ratio
  \<open>(width << 16) / height = 0\<close>, and \<open>(nwidth << 16) / ratio\<close> divides by zero: the
  request has no defined result. Such images are left out of the statement below.
\<close>

lemma GetScaledIcon_size_zero_ratio:
  assumes "preserveAspect icon" and "0 < width im" and "width im < 32768"
    and "width im * 65536 < height im"
  shows "GetScaledIcon_size icon im (width im) (height im) = None"
proof -
  define R where "R = (width im * 65536) div height im"
  define nw where "nw = min (width im) ((height im * R) div 65536)"
  define nh where "nh = min (height im) ((nw * 65536) div R)"
  have h: "0 < height im" using assms by linarith
  have "R = 0" unfolding R_def using assms by (simp add: div_pos_pos_trivial)
  then show ?thesis
    using size_closed_form [OF assms(1-3) h R_def nw_def nh_def] by simp
qed

text \<open>
  Claim C6, amended. Take an image of positive width below 32768 (so that
  \<open>width << 16\<close> fits an \<open>int\<close>) and of positive height at most \<open>width * 65536\<close>
  (so that the 16.16 ratio is not 0). A request at the native size with the aspect
  preserved returns an effective size \<open>(nwidth, nheight)\<close> with
  \<open>1 \<le> nwidth \<le> width\<close> and \<open>1 \<le> nheight \<le> height\<close>, and this is the native size
  exactly when the height divides \<open>width * 65536\<close>, that is, when the ratio is exact;
  this covers every square image. In every other case the truncation makes the rendering
  smaller than the native size in at least one dimension.
\<close>

theorem GetScaledIcon_size_native:
  assumes "preserveAspect icon" and "0 < width im" and "width im < 32768"
    and "0 < height im" and "height im \<le> width im * 65536"
  shows "\<exists>nw nh. GetScaledIcon_size icon im (width im) (height im) = Some (nw, nh)
           \<and> 1 \<le> nw \<and> nw \<le> width im \<and> 1 \<le> nh \<and> nh \<le> height im
           \<and> (nw = width im \<and> nh = height im \<longleftrightarrow> height im dvd width im * 65536)"
proof -
  define R where "R = (width im * 65536) div height im"
  define nw where "nw = min (width im) ((height im * R) div 65536)"
  define nh where "nh = min (height im) ((nw * 65536) div R)"
  have Rp: "0 < R" unfolding R_def using assms(4,5) by (simp add: pos_imp_zdiv_pos_iff)
  then have nz: "R \<noteq> 0" by simp
  have cf: "GetScaledIcon_size icon im (width im) (height im) =
              Some (max 1 ((nh * R) div 65536), max 1 nh)"
    using size_closed_form [OF assms(1-4) R_def nw_def nh_def] nz by (simp only: if_False)
  note b = size_bounds [OF assms(2) assms(4) Rp R_def nw_def nh_def]
  have e: "(max 1 ((nh * R) div 65536) = width im \<and> max 1 nh = height im)
             \<longleftrightarrow> height im dvd width im * 65536"
  proof (cases "height im dvd width im * 65536")
    case True
    from dvd_roundtrip [OF assms(2) assms(4) True R_def nw_def nh_def]
    show ?thesis using True by blast
  next
    case False
    from not_dvd_no_roundtrip [OF assms(2) assms(4) False R_def nw_def nh_def nz]
    show ?thesis using False by blast
  qed
  show ?thesis
    apply (rule exI [of _ "max 1 ((nh * R) div 65536)"])
    apply (rule exI [of _ "max 1 nh"])
    using cf b e by simp
qed

theorem GetScaledIcon_size_native_witness:
  "GetScaledIcon_size example_icon (sized_image 16 16) 16 16 = Some (16, 16)
   \<and> GetScaledIcon_size example_icon (sized_image 48 32) 48 32 = Some (48, 32)
   \<and> GetScaledIcon_size example_icon (sized_image 32 48) 32 48 = Some (30, 46)
   \<and> \<not> (48 :: int) dvd 32 * 65536"
  using GetScaledIcon_size_native [of example_icon "sized_image 16 16"]
        GetScaledIcon_size_native [of example_icon "sized_image 48 32"]
        GetScaledIcon_size_native [of example_icon "sized_image 32 48"]
  by (simp add: example_icon_def sized_image_def GetScaledIcon_size_def c_arith Let_def)

subsection \<open>The icon cache\<close>

lemma FindIcon_walk_None [simp]: "FindIcon_walk s nm None = Some None"
  by (subst FindIcon_walk.simps) simp

lemma FindIcon_walk_Some:
  "deref s a = Some ic \<Longrightarrow> name ic = Some n \<Longrightarrow>
   FindIcon_walk s nm (Some a) =
     (if n = nm then Some (Some a) else FindIcon_walk s nm (icon_next ic))"
  by (subst FindIcon_walk.simps) simp

text \<open>A walk only reads the names and the next pointers of the nodes it passes.\<close>

lemma FindIcon_walk_frame:
  assumes walk: "FindIcon_walk s nm p = Some r"
  shows "(\<forall>b n. deref s b = Some n \<longrightarrow>
           (\<exists>n'. deref s' b = Some n' \<and> name n' = name n \<and> icon_next n' = icon_next n))
         \<Longrightarrow> FindIcon_walk s' nm p = Some r"
  using walk
proof (induction s nm p r rule: FindIcon_walk.raw_induct[rotated, consumes 1])
  case (1 f s nm p r)
  show ?case
  proof (cases p)
    case None
    then show ?thesis using 1(2) by simp
  next
    case (Some a)
    then obtain ic n where ic: "deref s a = Some ic" and n: "name ic = Some n"
      and rest: "(if n = nm then Some (Some a) else f s nm (icon_next ic)) = Some r"
      using 1(2) by (auto split: Option.bind_splits)
    obtain ic' where ic': "deref s' a = Some ic'" "name ic' = Some n" "icon_next ic' = icon_next ic"
      using 1(3) ic n by (metis)
    show ?thesis
    proof (cases "n = nm")
      case True
      then show ?thesis using Some rest FindIcon_walk_Some[OF ic'(1) ic'(2), of nm] by simp
    next
      case False
      then have "f s nm (icon_next ic) = Some r" using rest by simp
      then have "FindIcon_walk s' nm (icon_next ic) = Some r" using 1(1) 1(3) by blast
      then show ?thesis using Some False FindIcon_walk_Some[OF ic'(1) ic'(2), of nm] ic'(3)
        by simp
    qed
  qed
qed

lemma CreateIconFromFile_new:
  assumes f: "FindIcon s fn = Some None" and l: "LoadImage s fn \<noteq> []"
    and c: "CreateIconFromFile (Some fn) True pa s = Some (r, s')"
  shows "r = Some (Heap (brk s)) \<and> brk s' = Suc (brk s)
     \<and> iconHash s' = (iconHash s)(GetHash (Some fn) := Some (brk s))
     \<and> LoadImage s' = LoadImage s \<and> iconPaths s' = iconPaths s
     \<and> (\<exists>ic. deref s' (brk s) = Some ic \<and> name ic = Some fn
              \<and> icon_next ic = iconHash s (GetHash (Some fn)))
     \<and> (\<forall>b n. deref s b = Some n \<longrightarrow>
           (\<exists>n'. deref s' b = Some n' \<and> name n' = name n \<and> icon_next n' = icon_next n))"
  using c f l
  apply (simp add: CreateIconFromFile_def CreateIcon_def InsertIcon_def Let_def split: Option.bind_splits)
  apply (auto simp: update_icon_def deref_def split: option.splits if_splits)
  done

lemma CreateIconFromFile_hit:
  "FindIcon s fn = Some (Some b) \<Longrightarrow>
   CreateIconFromFile (Some fn) sv pa s = Some (Some (Heap b), s)"
  by (simp add: CreateIconFromFile_def)

lemma CreateIconFromFile_miss:
  "FindIcon s fn = Some None \<Longrightarrow> LoadImage s fn = [] \<Longrightarrow>
   CreateIconFromFile (Some fn) sv pa s = Some (None, s)"
  by (simp add: CreateIconFromFile_def)

lemma FindIcon_after_new:
  assumes f: "FindIcon s fn = Some None" and l: "LoadImage s fn \<noteq> []"
    and c: "CreateIconFromFile (Some fn) True pa s = Some (r, s')"
  shows "FindIcon s' fn = Some (Some (brk s))"
    and "nm \<noteq> fn \<Longrightarrow> FindIcon s nm = Some q \<Longrightarrow> FindIcon s' nm = Some q"
proof -
  note n = CreateIconFromFile_new [OF f l c]
  from n obtain ic where ic: "deref s' (brk s) = Some ic" "name ic = Some fn"
    "icon_next ic = iconHash s (GetHash (Some fn))" by blast
  have h: "iconHash s' = (iconHash s)(GetHash (Some fn) := Some (brk s))" using n by blast
  have fr: "\<forall>b n. deref s b = Some n \<longrightarrow>
           (\<exists>n'. deref s' b = Some n' \<and> name n' = name n \<and> icon_next n' = icon_next n)"
    using n by blast
  show "FindIcon s' fn = Some (Some (brk s))"
    using FindIcon_walk_Some [OF ic(1) ic(2), of fn] by (simp add: FindIcon_def h)
  show "FindIcon s' nm = Some q" if ne: "nm \<noteq> fn" and q: "FindIcon s nm = Some q"
  proof (cases "GetHash (Some nm) = GetHash (Some fn)")
    case True
    have "FindIcon_walk s nm (iconHash s (GetHash (Some fn))) = Some q"
      using q True by (simp add: FindIcon_def)
    then have "FindIcon_walk s' nm (iconHash s (GetHash (Some fn))) = Some q"
      using fr by (rule FindIcon_walk_frame)
    then show ?thesis
      using FindIcon_walk_Some [OF ic(1) ic(2), of nm] ne True ic(3)
      by (simp add: FindIcon_def h)
  next
    case False
    have "FindIcon_walk s nm (iconHash s (GetHash (Some nm))) = Some q"
      using q by (simp add: FindIcon_def)
    then have "FindIcon_walk s' nm (iconHash s (GetHash (Some nm))) = Some q"
      using fr by (rule FindIcon_walk_frame)
    then show ?thesis using False by (simp add: FindIcon_def h)
  qed
qed

text \<open>A walk that finds a node finds one with the name it was looking for.\<close>

lemma FindIcon_walk_found:
  assumes walk: "FindIcon_walk s nm p = Some r"
  shows "r = Some a \<Longrightarrow> \<exists>ic. deref s a = Some ic \<and> name ic = Some nm"
  using walk
proof (induction s nm p r rule: FindIcon_walk.raw_induct[rotated, consumes 1])
  case (1 f s nm p r)
  show ?case
  proof (cases p)
    case None
    then show ?thesis using 1(2) 1(3) by simp
  next
    case (Some b)
    then obtain ic n where ic: "deref s b = Some ic" and n: "name ic = Some n"
      and rest: "(if n = nm then Some (Some b) else f s nm (icon_next ic)) = Some r"
      using 1(2) by (auto split: Option.bind_splits)
    show ?thesis
    proof (cases "n = nm")
      case True
      then have "r = Some b" using rest by simp
      then show ?thesis using 1(3) ic n True by simp
    next
      case False
      then have "f s nm (icon_next ic) = Some r" using rest by simp
      then show ?thesis using 1(1) 1(3) by blast
    qed
  qed
qed

lemma FindIcon_found:
  "FindIcon s nm = Some (Some a) \<Longrightarrow> \<exists>ic. deref s a = Some ic \<and> name ic = Some nm"
  unfolding FindIcon_def by (rule FindIcon_walk_found [OF _ refl])

lemma cache_grows_refl [simp]: "cache_grows s s"
  by (simp add: cache_grows_def)

lemma cache_grows_trans:
  "cache_grows s s1 \<Longrightarrow> cache_grows s1 s2 \<Longrightarrow> cache_grows s s2"
  by (simp add: cache_grows_def)

lemma cache_grows_miss:
  "cache_grows s s' \<Longrightarrow> FindIcon s nm = Some None \<Longrightarrow> LoadImage s nm = [] \<Longrightarrow>
   FindIcon s' nm = Some None \<and> LoadImage s' nm = []"
  by (simp add: cache_grows_def)

lemma cache_grows_hit:
  "cache_grows s s' \<Longrightarrow> FindIcon s nm = Some (Some a) \<Longrightarrow> FindIcon s' nm = Some (Some a)"
  by (simp add: cache_grows_def)

text \<open>What a call of \<open>CreateIconFromFile\<close> that stores its result leaves behind.\<close>

lemma CreateIconFromFile_result:
  assumes c: "CreateIconFromFile (Some fn) True pa s = Some (r, s')"
  shows "cache_grows s s'
     \<and> (r = None \<longrightarrow> s' = s \<and> FindIcon s fn = Some None \<and> LoadImage s fn = [])
     \<and> (r \<noteq> None \<longrightarrow> (\<exists>b. r = Some (Heap b) \<and> FindIcon s' fn = Some (Some b)))"
proof -
  obtain found where f: "FindIcon s fn = Some found"
    using c by (cases "FindIcon s fn") (auto simp: CreateIconFromFile_def)
  show ?thesis
  proof (cases found)
    case (Some b)
    then show ?thesis using c f CreateIconFromFile_hit [of s fn b True pa] by auto
  next
    case None
    show ?thesis
    proof (cases "LoadImage s fn = []")
      case True
      then show ?thesis using c f None CreateIconFromFile_miss [of s fn True pa] by auto
    next
      case False
      note n = CreateIconFromFile_new [OF f[unfolded None] False c]
      note a = FindIcon_after_new [OF f[unfolded None] False c]
      have m: "FindIcon s' nm = Some None"
        if "FindIcon s nm = Some None \<and> LoadImage s nm = []" for nm
      proof -
        have "nm \<noteq> fn" using that False by auto
        then show ?thesis using a(2) that by blast
      qed
      have h: "FindIcon s' nm = Some (Some b)" if "FindIcon s nm = Some (Some b)" for nm b
      proof -
        have "nm \<noteq> fn" using that f None by auto
        then show ?thesis using a(2) that by blast
      qed
      have "cache_grows s s'"
        unfolding cache_grows_def using n m h by blast
      then show ?thesis using n a(1) by auto
    qed
  qed
qed

text \<open>
  A load that returned \<open>r\<close> returns \<open>r\<close> again, and changes nothing, in every state
  that the cache has grown into since.
\<close>

lemma CreateIconFromFile_replay:
  assumes c: "CreateIconFromFile (Some fn) True pa s = Some (r, s1)" and g: "cache_grows s1 s2"
  shows "CreateIconFromFile (Some fn) sv pa' s2 = Some (r, s2)"
proof (cases "r = None")
  case True
  then have "s1 = s" "FindIcon s fn = Some None" "LoadImage s fn = []"
    using CreateIconFromFile_result [OF c] by auto
  then have "FindIcon s2 fn = Some None" "LoadImage s2 fn = []"
    using cache_grows_miss [of s s2 fn] g by auto
  then show ?thesis using True by (simp add: CreateIconFromFile_miss)
next
  case False
  then obtain b where b: "r = Some (Heap b)" "FindIcon s1 fn = Some (Some b)"
    using CreateIconFromFile_result [OF c] by auto
  then have "FindIcon s2 fn = Some (Some b)" using cache_grows_hit [OF g] by simp
  then show ?thesis using b(1) by (simp add: CreateIconFromFile_hit)
qed

lemma CreateIconFromFile_named:
  assumes c: "CreateIconFromFile (Some fn) True pa s = Some (Some (Heap a), s1)"
  shows "(\<exists>ic. deref s1 a = Some ic \<and> name ic = Some fn) \<and> FindIcon s1 fn = Some (Some a)"
proof -
  have f: "FindIcon s1 fn = Some (Some a)" using CreateIconFromFile_result [OF c] by auto
  then show ?thesis using FindIcon_found by blast
qed

lemma Helper_loop_replay:
  "LoadNamedIconHelper_loop temp exts True pa s = Some (r, s1) \<Longrightarrow>
   cache_grows s s1
   \<and> (\<forall>s2. cache_grows s1 s2 \<longrightarrow> LoadNamedIconHelper_loop temp exts sv pa' s2 = Some (r, s2))"
proof (induction exts arbitrary: s)
  case Nil
  then show ?case by auto
next
  case (Cons ext exts)
  from Cons.prems obtain r0 s0 where
    c: "CreateIconFromFile (Some (temp @ ext)) True pa s = Some (r0, s0)"
    by (auto split: Option.bind_splits)
  note res = CreateIconFromFile_result [OF c]
  have g0: "cache_grows s s0" using res by simp
  show ?case
  proof (cases "r0 = None")
    case True
    have rest: "LoadNamedIconHelper_loop temp exts True pa s0 = Some (r, s1)"
      using Cons.prems c True by simp
    note ih = Cons.IH [OF rest]
    have g1: "cache_grows s s1" using g0 ih cache_grows_trans by blast
    have "LoadNamedIconHelper_loop temp (ext # exts) sv pa' s2 = Some (r, s2)"
      if g: "cache_grows s1 s2" for s2
    proof -
      have "cache_grows s0 s2" using ih g cache_grows_trans by blast
      then have "CreateIconFromFile (Some (temp @ ext)) sv pa' s2 = Some (None, s2)"
        using CreateIconFromFile_replay [OF c] True by simp
      then show ?thesis using ih g by simp
    qed
    then show ?thesis using g1 by blast
  next
    case False
    then have e: "r = r0" "s1 = s0" using Cons.prems c by auto
    have "LoadNamedIconHelper_loop temp (ext # exts) sv pa' s2 = Some (r, s2)"
      if g: "cache_grows s1 s2" for s2
      using CreateIconFromFile_replay [OF c, of s2 sv pa'] g e False by simp
    then show ?thesis using g0 e by blast
  qed
qed

lemma LoadNamedIcon_loop_replay:
  "LoadNamedIcon_loop nm ips True pa s = Some (r, s1) \<Longrightarrow>
   cache_grows s s1
   \<and> (\<forall>s2. cache_grows s1 s2 \<longrightarrow> LoadNamedIcon_loop nm ips sv pa' s2 = Some (r, s2))"
proof (induction ips arbitrary: s)
  case Nil
  then show ?case by auto
next
  case (Cons ip ips)
  from Cons.prems obtain r0 s0 where
    c: "LoadNamedIconHelper nm ip True pa s = Some (r0, s0)"
    by (auto split: Option.bind_splits)
  then have c': "LoadNamedIconHelper_loop (ip @ nm) ICON_EXTENSIONS True pa s = Some (r0, s0)"
    by (simp add: LoadNamedIconHelper_def)
  note h = Helper_loop_replay [OF c', of sv pa']
  have g0: "cache_grows s s0" using h by simp
  have hr: "LoadNamedIconHelper nm ip sv pa' s2 = Some (r0, s2)" if "cache_grows s0 s2" for s2
    using h that by (simp add: LoadNamedIconHelper_def)
  show ?case
  proof (cases "r0 = None")
    case True
    have rest: "LoadNamedIcon_loop nm ips True pa s0 = Some (r, s1)"
      using Cons.prems c True by simp
    note ih = Cons.IH [OF rest]
    have g1: "cache_grows s s1" using g0 ih cache_grows_trans by blast
    have "LoadNamedIcon_loop nm (ip # ips) sv pa' s2 = Some (r, s2)"
      if g: "cache_grows s1 s2" for s2
    proof -
      have "cache_grows s0 s2" using ih g cache_grows_trans by blast
      then show ?thesis using hr [of s2] True ih g by simp
    qed
    then show ?thesis using g1 by blast
  next
    case False
    then have e: "r = r0" "s1 = s0" using Cons.prems c by auto
    have "LoadNamedIcon_loop nm (ip # ips) sv pa' s2 = Some (r, s2)"
      if g: "cache_grows s1 s2" for s2
      using hr [of s2] g e False by simp
    then show ?thesis using g0 e by blast
  qed
qed

lemma LoadNamedIcon_replay:
  assumes l: "LoadNamedIcon nm True pa s = Some (r, s1)"
  shows "cache_grows s s1
   \<and> (\<forall>s2. cache_grows s1 s2 \<longrightarrow> LoadNamedIcon nm sv pa' s2 = Some (r, s2))"
proof (cases nm)
  case Nil
  then show ?thesis using l by (auto simp: LoadNamedIcon_def)
next
  case (Cons c cs)
  show ?thesis
  proof (cases "c = CHR ''/''")
    case True
    then have c1: "CreateIconFromFile (Some nm) True pa s = Some (r, s1)"
      using l Cons by (simp add: LoadNamedIcon_def)
    have "LoadNamedIcon nm sv pa' s2 = Some (r, s2)" if "cache_grows s1 s2" for s2
      using CreateIconFromFile_replay [OF c1 that, of sv pa'] True Cons
      by (simp add: LoadNamedIcon_def)
    then show ?thesis using CreateIconFromFile_result [OF c1] by blast
  next
    case False
    then have l1: "LoadNamedIcon_loop nm (iconPaths s) True pa s = Some (r, s1)"
      using l Cons by (simp add: LoadNamedIcon_def)
    note t = LoadNamedIcon_loop_replay [OF l1, of sv pa']
    have "LoadNamedIcon nm sv pa' s2 = Some (r, s2)" if g: "cache_grows s1 s2" for s2
    proof -
      have "iconPaths s2 = iconPaths s" using t g by (simp add: cache_grows_def)
      then show ?thesis using t g False Cons by (simp add: LoadNamedIcon_def)
    qed
    then show ?thesis using t by blast
  qed
qed

text \<open>
  A load that does not store its result allocates a node and links it nowhere: every
  lookup gives what it gave before.
\<close>

lemma CreateIconFromFile_unsaved:
  assumes f: "FindIcon s fn = Some None" and l: "LoadImage s fn \<noteq> []"
    and c: "CreateIconFromFile (Some fn) False pa s = Some (r, s')"
  shows "r = Some (Heap (brk s)) \<and> iconHash s' = iconHash s
     \<and> LoadImage s' = LoadImage s \<and> iconPaths s' = iconPaths s
     \<and> (\<forall>b. b \<noteq> brk s \<longrightarrow> deref s' b = deref s b)"
  using c f l
  by (auto simp: CreateIconFromFile_def CreateIcon_def Let_def update_icon_def deref_def
        split: Option.bind_splits option.splits if_splits)

lemma FindIcon_frame:
  assumes d: "\<forall>b. b \<noteq> brk s \<longrightarrow> deref s' b = deref s b" and h: "iconHash s' = iconHash s"
    and q: "FindIcon s nm = Some q"
  shows "FindIcon s' nm = Some q"
proof -
  have "\<forall>b n. deref s b = Some n \<longrightarrow>
           (\<exists>n'. deref s' b = Some n' \<and> name n' = name n \<and> icon_next n' = icon_next n)"
  proof (intro allI impI)
    fix b n assume b: "deref s b = Some n"
    then have "b \<noteq> brk s" by (auto simp: deref_def split: if_splits)
    then show "\<exists>n'. deref s' b = Some n' \<and> name n' = name n \<and> icon_next n' = icon_next n"
      using d b by simp
  qed
  then have "FindIcon_walk s' nm (iconHash s (GetHash (Some nm))) = Some q"
    using q FindIcon_walk_frame [of s nm "iconHash s (GetHash (Some nm))" q s']
    by (simp add: FindIcon_def)
  then show ?thesis by (simp add: FindIcon_def h)
qed

lemma CreateIconFromFile_grows:
  assumes c: "CreateIconFromFile fileName sv pa s = Some (r, s')"
  shows "cache_grows s s'"
proof (cases fileName)
  case None
  then show ?thesis using c by (simp add: CreateIconFromFile_def)
next
  case (Some fn)
  show ?thesis
  proof (cases sv)
    case True
    then show ?thesis using CreateIconFromFile_result [of fn pa s r s'] c Some by simp
  next
    case False
    obtain found where f: "FindIcon s fn = Some found"
      using c Some by (cases "FindIcon s fn") (auto simp: CreateIconFromFile_def)
    show ?thesis
    proof (cases found)
      case (Some b)
      then show ?thesis
        using c f \<open>fileName = Some fn\<close> CreateIconFromFile_hit [of s fn b sv pa] by simp
    next
      case None
      show ?thesis
      proof (cases "LoadImage s fn = []")
        case True
        then show ?thesis
          using c f None \<open>fileName = Some fn\<close> CreateIconFromFile_miss [of s fn sv pa] by simp
      next
        case l: False
        have c': "CreateIconFromFile (Some fn) False pa s = Some (r, s')"
          using c False \<open>fileName = Some fn\<close> by simp
        note u = CreateIconFromFile_unsaved [OF f[unfolded None] l c']
        have "FindIcon s' nm = Some q" if "FindIcon s nm = Some q" for nm q
          using FindIcon_frame [of s s' nm q] u that by blast
        then show ?thesis unfolding cache_grows_def using u by simp
      qed
    qed
  qed
qed

lemma Helper_loop_grows:
  "LoadNamedIconHelper_loop temp exts sv pa s = Some (r, s') \<Longrightarrow> cache_grows s s'"
proof (induction exts arbitrary: s)
  case Nil
  then show ?case by simp
next
  case (Cons ext exts)
  from Cons.prems obtain r0 s0 where
    c: "CreateIconFromFile (Some (temp @ ext)) sv pa s = Some (r0, s0)"
    by (auto split: Option.bind_splits)
  note g0 = CreateIconFromFile_grows [OF c]
  show ?case
  proof (cases "r0 = None")
    case True
    then have "LoadNamedIconHelper_loop temp exts sv pa s0 = Some (r, s')"
      using Cons.prems c by simp
    from Cons.IH [OF this] show ?thesis using g0 cache_grows_trans by blast
  next
    case False
    then have "s' = s0" using Cons.prems c by auto
    then show ?thesis using g0 by simp
  qed
qed

lemma LoadNamedIcon_loop_grows:
  "LoadNamedIcon_loop nm ips sv pa s = Some (r, s') \<Longrightarrow> cache_grows s s'"
proof (induction ips arbitrary: s)
  case Nil
  then show ?case by simp
next
  case (Cons ip ips)
  from Cons.prems obtain r0 s0 where
    c: "LoadNamedIconHelper nm ip sv pa s = Some (r0, s0)"
    by (auto split: Option.bind_splits)
  then have g0: "cache_grows s s0"
    using Helper_loop_grows by (simp add: LoadNamedIconHelper_def)
  show ?case
  proof (cases "r0 = None")
    case True
    then have "LoadNamedIcon_loop nm ips sv pa s0 = Some (r, s')"
      using Cons.prems c by simp
    from Cons.IH [OF this] show ?thesis using g0 cache_grows_trans by blast
  next
    case False
    then have "s' = s0" using Cons.prems c by auto
    then show ?thesis using g0 by simp
  qed
qed

lemma LoadNamedIcon_grows:
  assumes l: "LoadNamedIcon nm sv pa s = Some (r, s')"
  shows "cache_grows s s'"
proof (cases nm)
  case Nil
  then show ?thesis using l by (simp add: LoadNamedIcon_def)
next
  case (Cons c cs)
  show ?thesis
  proof (cases "c = CHR ''/''")
    case True
    then show ?thesis
      using l Cons CreateIconFromFile_grows [of "Some nm" sv pa s r s']
      by (simp add: LoadNamedIcon_def)
  next
    case False
    then show ?thesis
      using l Cons LoadNamedIcon_loop_grows [of nm "iconPaths s" sv pa s r s']
      by (simp add: LoadNamedIcon_def)
  qed
qed

lemma LoadNamedIcon_seq_grows:
  "LoadNamedIcon_seq ops s = Some (rs, s') \<Longrightarrow> cache_grows s s'"
proof (induction ops arbitrary: s rs)
  case Nil
  then show ?case by simp
next
  case (Cons op ops)
  obtain nm sv pa where op: "op = (nm, sv, pa)" by (cases op)
  from Cons.prems op obtain r s1 rs1 where
    l: "LoadNamedIcon nm sv pa s = Some (r, s1)"
    and rest: "LoadNamedIcon_seq ops s1 = Some (rs1, s')"
    by (auto split: Option.bind_splits)
  show ?case
    using LoadNamedIcon_grows [OF l] Cons.IH [OF rest] cache_grows_trans by blast
qed

text \<open>The record that a load returns is stored under the file name it was found as.\<close>

lemma Helper_loop_named:
  "LoadNamedIconHelper_loop temp exts True pa s = Some (Some (Heap a), s1) \<Longrightarrow>
   \<exists>ext \<in> set exts. (\<exists>ic. deref s1 a = Some ic \<and> name ic = Some (temp @ ext))
                      \<and> FindIcon s1 (temp @ ext) = Some (Some a)"
proof (induction exts arbitrary: s)
  case Nil
  then show ?case by simp
next
  case (Cons ext exts)
  from Cons.prems obtain r0 s0 where
    c: "CreateIconFromFile (Some (temp @ ext)) True pa s = Some (r0, s0)"
    by (auto split: Option.bind_splits)
  show ?case
  proof (cases "r0 = None")
    case True
    have rest: "LoadNamedIconHelper_loop temp exts True pa s0 = Some (Some (Heap a), s1)"
      using Cons.prems c True by simp
    from Cons.IH [OF rest] show ?thesis by auto
  next
    case False
    then have e: "r0 = Some (Heap a)" "s1 = s0" using Cons.prems c by auto
    from CreateIconFromFile_named [OF c[unfolded e(1)]] e show ?thesis by auto
  qed
qed

lemma LoadNamedIcon_loop_named:
  "LoadNamedIcon_loop nm ips True pa s = Some (Some (Heap a), s1) \<Longrightarrow>
   \<exists>ip \<in> set ips. \<exists>ext \<in> set ICON_EXTENSIONS.
      (\<exists>ic. deref s1 a = Some ic \<and> name ic = Some (ip @ nm @ ext))
      \<and> FindIcon s1 (ip @ nm @ ext) = Some (Some a)"
proof (induction ips arbitrary: s)
  case Nil
  then show ?case by simp
next
  case (Cons ip ips)
  from Cons.prems obtain r0 s0 where
    c: "LoadNamedIconHelper nm ip True pa s = Some (r0, s0)"
    by (auto split: Option.bind_splits)
  show ?case
  proof (cases "r0 = None")
    case True
    have rest: "LoadNamedIcon_loop nm ips True pa s0 = Some (Some (Heap a), s1)"
      using Cons.prems c True by simp
    from Cons.IH [OF rest] show ?thesis by auto
  next
    case False
    then have e: "r0 = Some (Heap a)" "s1 = s0" using Cons.prems c by auto
    have "LoadNamedIconHelper_loop (ip @ nm) ICON_EXTENSIONS True pa s = Some (Some (Heap a), s1)"
      using c e by (simp add: LoadNamedIconHelper_def)
    from Helper_loop_named [OF this] show ?thesis by auto
  qed
qed

lemma LoadNamedIcon_named:
  assumes l: "LoadNamedIcon nm True pa s = Some (Some (Heap a), s1)"
  shows "\<exists>f ic. (if hd nm = CHR ''/'' then f = nm
                  else \<exists>ip \<in> set (iconPaths s). \<exists>ext \<in> set ICON_EXTENSIONS.
                         f = ip @ nm @ ext)
           \<and> deref s1 a = Some ic \<and> name ic = Some f \<and> FindIcon s1 f = Some (Some a)"
proof (cases nm)
  case Nil
  then show ?thesis using l by (simp add: LoadNamedIcon_def)
next
  case (Cons c cs)
  show ?thesis
  proof (cases "c = CHR ''/''")
    case True
    then have c1: "CreateIconFromFile (Some nm) True pa s = Some (Some (Heap a), s1)"
      using l Cons by (simp add: LoadNamedIcon_def)
    from CreateIconFromFile_named [OF c1] show ?thesis using True Cons by auto
  next
    case False
    then have l1: "LoadNamedIcon_loop nm (iconPaths s) True pa s = Some (Some (Heap a), s1)"
      using l Cons by (simp add: LoadNamedIcon_def)
    from LoadNamedIcon_loop_named [OF l1] show ?thesis using False Cons by auto
  qed
qed

lemma hash_xterm: "GetHash (Some ''/usr/share/icons/xterm.png'') = 0"
  by (simp add: GetHash_def GetHash_step_def char_to_unsigned_def)

lemmas icon_eval =
  LoadNamedIcon_def LoadNamedIconHelper_def ICON_EXTENSIONS_def CreateIconFromFile_def
  FindIcon_def icons_start_def InitializeIcons_def example_files_def CreateIcon_def
  update_icon_def deref_def InsertIcon_def hash_xterm xterm_loaded_def xterm_icon_def

subsection \<open>Destroying a client icon\<close>

lemma GetHash_None [simp]: "GetHash None = 0"
  by (simp add: GetHash_def)

lemma while_done:
  "len \<le> offset \<Longrightarrow> CreateIconFromBinary_while input len offset result s = Inr (result, s)"
  by (subst CreateIconFromBinary_while.simps) simp

text \<open>
  Claim C5 does not hold of the code. In \<open>xterm_loaded\<close> the icon
  \<open>/usr/share/icons/xterm.png\<close> is cached at address 0, the head of bucket 0.
  A client icon is read from a window property (address 1, no name, never inserted), and
  \<open>FindIcon\<close> still finds the cached icon. \<open>DestroyIcon\<close> on the client icon calls
  \<open>DoDestroyIcon\<close> with the index \<open>GetHash(NULL) = 0\<close>; the icon has no \<open>prev\<close>, so
  \<open>iconHash[0] = icon->next\<close> empties bucket 0. Afterwards \<open>FindIcon\<close> on the cached
  name returns \<open>NULL\<close>, while the cached record is still allocated at address 0.
\<close>

theorem DestroyIcon_orphans_bucket:
  "CreateIconFromBinary (Some [1, 1, 4278190080]) 3 xterm_loaded = Inr (Some 1, with_client_icon)
   \<and> FindIcon with_client_icon ''/usr/share/icons/xterm.png'' = Some (Some 0)
   \<and> DestroyIcon (Some (Heap 1)) with_client_icon = Some client_icon_destroyed
   \<and> FindIcon client_icon_destroyed ''/usr/share/icons/xterm.png'' = Some None
   \<and> deref client_icon_destroyed 0 = Some xterm_icon"
  by (simp add: CreateIconFromBinary_def CreateIconFromBinary_while.simps [of _ _ 0]
          while_done unsigned_to_int_def
          read_word_def UINT_MOD_def CreateIcon_def update_icon_def deref_def
          xterm_loaded_def with_client_icon_def client_icon_destroyed_def client_icon_def
          word_bytes_def FindIcon_def hash_xterm FindIcon_walk_Some xterm_icon_def
          DestroyIcon_def DoDestroyIcon_def name_of_def Release_icon_def
          CreateImage_def example_image_def fun_upd_twist)

subsection \<open>Destroy and shutdown release icons\<close>

lemma deref_display [simp]: "deref (s\<lparr>display := d\<rparr>) a = deref s a"
  by (simp add: deref_def)

lemma deref_iconHash [simp]: "deref (s\<lparr>iconHash := h\<rparr>) a = deref s a"
  by (simp add: deref_def)

lemma deref_store:
  "deref s q \<noteq> None \<Longrightarrow>
   deref (s\<lparr>icons := (icons s)(q \<mapsto> v)\<rparr>) b = (if b = q then Some v else deref s b)"
  by (auto simp: deref_def split: if_splits)

lemma deref_Release [simp]:
  "deref (Release_icon a s) b = (if b = a then None else deref s b)"
  by (simp add: deref_def Release_icon_def)

lemma iconHash_Release [simp]: "iconHash (Release_icon a s) = iconHash s"
  by (simp add: Release_icon_def)

lemma update_icon_eq:
  "deref s q = Some n \<Longrightarrow> update_icon q f s = Some (s\<lparr>icons := (icons s)(q \<mapsto> f n)\<rparr>)"
  by (simp add: update_icon_def)

lemma chain_frame:
  "(\<forall>a \<in> set as. deref s' a = deref s a) \<Longrightarrow> chain s' pv p as = chain s pv p as"
  by (induction as arbitrary: pv p) (auto split: option.splits)

lemma chain_valid:
  "chain s pv p as \<Longrightarrow> a \<in> set as \<Longrightarrow> deref s a \<noteq> None"
proof (induction as arbitrary: pv p)
  case Nil
  then show ?case by simp
next
  case (Cons b bs)
  from Cons.prems(1) obtain ic where ic: "deref s b = Some ic" "chain s (Some b) (icon_next ic) bs"
    by (auto split: option.splits)
  show ?case
  proof (cases "a = b")
    case True
    then show ?thesis using ic by simp
  next
    case False
    then have "a \<in> set bs" using Cons.prems(2) by simp
    then show ?thesis using Cons.IH [OF ic(2)] by simp
  qed
qed

lemma ShutdownIcons_while_empty:
  "iconHash s x = None \<Longrightarrow> ShutdownIcons_while x s = Some s"
  by (subst ShutdownIcons_while.simps) simp

lemma ShutdownIcons_while_step:
  "iconHash s x = Some a \<Longrightarrow> DoDestroyIcon x (Some (Heap a)) s = Some s' \<Longrightarrow>
   ShutdownIcons_while x s = ShutdownIcons_while x s'"
  by (subst ShutdownIcons_while.simps) simp

lemma DoDestroyIcon_Heap:
  "deref s a = Some ic \<Longrightarrow>
   DoDestroyIcon x (Some (Heap a)) s =
     (case icon_prev ic of
        Some q \<Rightarrow> update_icon q (\<lambda>n. n\<lparr>icon_next := icon_next ic\<rparr>)
           (s\<lparr>display := fold free_scaled (concat (map nodes (images ic))) (display s)\<rparr>)
      | None \<Rightarrow> Some ((s\<lparr>display := fold free_scaled (concat (map nodes (images ic))) (display s)\<rparr>)
          \<lparr>iconHash := (iconHash (s\<lparr>display := fold free_scaled (concat (map nodes (images ic))) (display s)\<rparr>))
             (x := icon_next ic)\<rparr>))
     \<bind> (\<lambda>s2. deref s2 a
     \<bind> (\<lambda>ic2. (case icon_next ic2 of
                 Some q \<Rightarrow> update_icon q (\<lambda>n. n\<lparr>icon_prev := icon_prev ic2\<rparr>) s2
               | None \<Rightarrow> Some s2)
     \<bind> (\<lambda>s3. Some (Release_icon a s3))))"
  unfolding DoDestroyIcon_def Let_def
  by (simp only: option.case icon_ptr.case Option.bind.simps)

lemma DoDestroyIcon_no_prev:
  assumes ic: "deref s a = Some ic" "icon_prev ic = None"
  shows "DoDestroyIcon x (Some (Heap a)) s =
      (case icon_next ic of
         Some q \<Rightarrow> update_icon q (\<lambda>n. n\<lparr>icon_prev := icon_prev ic\<rparr>)
            ((s\<lparr>display := fold free_scaled (concat (map nodes (images ic))) (display s)\<rparr>)
               \<lparr>iconHash := (iconHash (s\<lparr>display := fold free_scaled (concat (map nodes (images ic))) (display s)\<rparr>))(x := icon_next ic)\<rparr>)
       | None \<Rightarrow> Some ((s\<lparr>display := fold free_scaled (concat (map nodes (images ic))) (display s)\<rparr>)
               \<lparr>iconHash := (iconHash (s\<lparr>display := fold free_scaled (concat (map nodes (images ic))) (display s)\<rparr>))(x := icon_next ic)\<rparr>))
       \<bind> (\<lambda>s3. Some (Release_icon a s3))"
proof -
  have d: "deref ((s\<lparr>display := fold free_scaled (concat (map nodes (images ic))) (display s)\<rparr>)
               \<lparr>iconHash := (iconHash (s\<lparr>display := fold free_scaled (concat (map nodes (images ic))) (display s)\<rparr>))(x := icon_next ic)\<rparr>) a = Some ic"
    using ic(1) by simp
  show ?thesis
    unfolding DoDestroyIcon_Heap [OF ic(1)]
    by (simp only: ic(2) option.case d Option.bind.simps)
qed

lemma DoDestroyIcon_no_prev':
  assumes ic: "deref s a = Some ic" "icon_prev ic = None"
    and s2: "s2 = (s\<lparr>display := fold free_scaled (concat (map nodes (images ic))) (display s)\<rparr>)
               \<lparr>iconHash := (iconHash (s\<lparr>display := fold free_scaled (concat (map nodes (images ic))) (display s)\<rparr>))(x := icon_next ic)\<rparr>"
  shows "DoDestroyIcon x (Some (Heap a)) s =
      (case icon_next ic of
         Some q \<Rightarrow> update_icon q (\<lambda>n. n\<lparr>icon_prev := icon_prev ic\<rparr>) s2
       | None \<Rightarrow> Some s2) \<bind> (\<lambda>s3. Some (Release_icon a s3))"
  unfolding s2 by (rule DoDestroyIcon_no_prev [OF ic])

text \<open>Destroying the head of a well-formed chain leaves the rest as the chain.\<close>

lemma DoDestroyIcon_head:
  assumes c: "chain s None (iconHash s x) (a # as)" and d: "distinct (a # as)"
  shows "\<exists>s'. DoDestroyIcon x (Some (Heap a)) s = Some s'
           \<and> chain s' None (iconHash s' x) as
           \<and> (\<forall>y. y \<noteq> x \<longrightarrow> iconHash s' y = iconHash s y)
           \<and> deref s' a = None
           \<and> (\<forall>b. b \<noteq> a \<and> b \<notin> set (take 1 as) \<longrightarrow> deref s' b = deref s b)
           \<and> (\<forall>b \<in> set as. deref s' b \<noteq> None)"
proof -
  from c obtain ic where ic: "deref s a = Some ic" "icon_prev ic = None"
    "chain s (Some a) (icon_next ic) as" and h: "iconHash s x = Some a"
    by (auto split: option.splits)
  define s2 where "s2 = (s\<lparr>display := fold free_scaled (concat (map nodes (images ic))) (display s)\<rparr>)
               \<lparr>iconHash := (iconHash (s\<lparr>display := fold free_scaled (concat (map nodes (images ic))) (display s)\<rparr>))(x := icon_next ic)\<rparr>"
  have d2: "deref s2 c = deref s c" for c by (simp add: s2_def)
  have h2: "iconHash s2 = (iconHash s)(x := icon_next ic)" by (simp add: s2_def)
  note unfold = DoDestroyIcon_no_prev' [OF ic(1) ic(2) s2_def]
  show ?thesis
  proof (cases as)
    case Nil
    then have n: "icon_next ic = None" using ic by simp
    have run: "DoDestroyIcon x (Some (Heap a)) s = Some (Release_icon a s2)"
      unfolding unfold by (simp only: n option.case Option.bind.simps)
    have "iconHash (Release_icon a s2) x = None" using h2 n by simp
    moreover have "\<forall>y. y \<noteq> x \<longrightarrow> iconHash (Release_icon a s2) y = iconHash s y"
      using h2 by simp
    moreover have "deref (Release_icon a s2) a = None" by simp
    moreover have "\<forall>b. b \<noteq> a \<longrightarrow> deref (Release_icon a s2) b = deref s b"
      using d2 by simp
    ultimately show ?thesis using run Nil by simp
  next
    case (Cons b bs)
    then obtain icb where b: "icon_next ic = Some b" "deref s b = Some icb"
      "name icb \<noteq> None" "icon_prev icb = Some a" "chain s (Some b) (icon_next icb) bs"
      using ic by (auto split: option.splits)
    have ne: "b \<noteq> a" "a \<notin> set bs" "b \<notin> set bs" using d Cons by auto
    define s3 where "s3 = s2\<lparr>icons := (icons s2)(b \<mapsto> icb\<lparr>icon_prev := None\<rparr>)\<rparr>"
    define s' where "s' = Release_icon a s3"
    have b2: "deref s2 b = Some icb" using b d2 by simp
    have u: "update_icon b (\<lambda>n. n\<lparr>icon_prev := icon_prev ic\<rparr>) s2 = Some s3"
      using update_icon_eq [OF b2, of "\<lambda>n. n\<lparr>icon_prev := icon_prev ic\<rparr>"] ic(2)
      by (simp add: s3_def)
    have d3: "deref s3 c = (if c = b then Some (icb\<lparr>icon_prev := None\<rparr>) else deref s c)" for c
      using deref_store [of s2 b "icb\<lparr>icon_prev := None\<rparr>" c] b2 d2 by (simp add: s3_def)
    have run: "DoDestroyIcon x (Some (Heap a)) s = Some s'"
      unfolding unfold s'_def by (simp only: b(1) option.case u Option.bind.simps)
    have da: "deref s' a = None" by (simp add: s'_def)
    have db: "deref s' b = Some (icb\<lparr>icon_prev := None\<rparr>)"
      using ne d3 by (simp add: s'_def)
    have dc: "deref s' c = deref s c" if "c \<noteq> a" "c \<noteq> b" for c
      using that d3 by (simp add: s'_def)
    have h3: "iconHash s3 = iconHash s2" by (simp add: s3_def)
    have hx: "iconHash s' x = Some b" and hy: "\<forall>y. y \<noteq> x \<longrightarrow> iconHash s' y = iconHash s y"
      using h2 h3 b(1) by (simp_all add: s'_def)
    have "\<forall>c \<in> set bs. deref s' c = deref s c"
    proof
      fix c assume "c \<in> set bs"
      then have "c \<noteq> a" "c \<noteq> b" using ne by auto
      then show "deref s' c = deref s c" by (rule dc)
    qed
    then have "chain s' (Some b) (icon_next icb) bs = chain s (Some b) (icon_next icb) bs"
      by (rule chain_frame)
    then have ch: "chain s' None (iconHash s' x) as"
      using Cons hx db b by simp
    have val: "\<forall>c \<in> set as. deref s' c \<noteq> None"
      using chain_valid [OF ch] by simp
    have fr: "\<forall>c. c \<noteq> a \<and> c \<notin> set (take 1 as) \<longrightarrow> deref s' c = deref s c"
      using dc Cons by simp
    show ?thesis using run ch hy da fr val by blast
  qed
qed

lemma ShutdownIcons_while_chain:
  "chain s None (iconHash s x) as \<Longrightarrow> distinct as \<Longrightarrow>
   \<exists>s'. ShutdownIcons_while x s = Some s'
        \<and> iconHash s' x = None
        \<and> (\<forall>y. y \<noteq> x \<longrightarrow> iconHash s' y = iconHash s y)
        \<and> (\<forall>a \<in> set as. deref s' a = None)
        \<and> (\<forall>b. b \<notin> set as \<longrightarrow> deref s' b = deref s b)"
proof (induction as arbitrary: s)
  case Nil
  then show ?case by (simp add: ShutdownIcons_while_empty)
next
  case (Cons a as)
  from DoDestroyIcon_head [OF Cons.prems] obtain s1 where
    s1: "DoDestroyIcon x (Some (Heap a)) s = Some s1" "chain s1 None (iconHash s1 x) as"
      "\<forall>y. y \<noteq> x \<longrightarrow> iconHash s1 y = iconHash s y" "deref s1 a = None"
      "\<forall>b. b \<noteq> a \<and> b \<notin> set (take 1 as) \<longrightarrow> deref s1 b = deref s b"
    by blast
  have h: "iconHash s x = Some a" using Cons.prems(1) by simp
  have d: "distinct as" "a \<notin> set as" using Cons.prems(2) by auto
  from Cons.IH [OF s1(2) d(1)] obtain s' where
    s': "ShutdownIcons_while x s1 = Some s'" "iconHash s' x = None"
      "\<forall>y. y \<noteq> x \<longrightarrow> iconHash s' y = iconHash s1 y" "\<forall>a \<in> set as. deref s' a = None"
      "\<forall>b. b \<notin> set as \<longrightarrow> deref s' b = deref s1 b"
    by blast
  have "ShutdownIcons_while x s = Some s'"
    using ShutdownIcons_while_step [OF h s1(1)] s'(1) by simp
  moreover have "deref s' a = None" using s'(5) d(2) s1(4) by simp
  moreover have "\<forall>b. b \<notin> set (a # as) \<longrightarrow> deref s' b = deref s b"
  proof (intro allI impI)
    fix b assume "b \<notin> set (a # as)"
    then have "b \<noteq> a" "b \<notin> set as" by auto
    moreover have "b \<notin> set (take 1 as)" using \<open>b \<notin> set as\<close> by (meson in_set_takeD)
    ultimately show "deref s' b = deref s b" using s'(5) s1(5) by simp
  qed
  ultimately show ?case using s' s1(3) by auto
qed

lemma ShutdownIcons_for_chains:
  "distinct xs \<Longrightarrow>
   (\<forall>x \<in> set xs. chain s None (iconHash s x) (bs x) \<and> distinct (bs x)
       \<and> (\<forall>y \<in> set xs. x \<noteq> y \<longrightarrow> set (bs x) \<inter> set (bs y) = {})) \<Longrightarrow>
   \<exists>s'. ShutdownIcons_for xs s = Some s'
        \<and> (\<forall>x \<in> set xs. iconHash s' x = None)
        \<and> (\<forall>y. y \<notin> set xs \<longrightarrow> iconHash s' y = iconHash s y)
        \<and> (\<forall>x \<in> set xs. \<forall>a \<in> set (bs x). deref s' a = None)
        \<and> (\<forall>b. (\<forall>x \<in> set xs. b \<notin> set (bs x)) \<longrightarrow> deref s' b = deref s b)"
proof (induction xs arbitrary: s)
  case Nil
  then show ?case by simp
next
  case (Cons x xs)
  have cx: "chain s None (iconHash s x) (bs x)" "distinct (bs x)" using Cons.prems(2) by auto
  from ShutdownIcons_while_chain [OF cx] obtain s1 where
    s1: "ShutdownIcons_while x s = Some s1" "iconHash s1 x = None"
      "\<forall>y. y \<noteq> x \<longrightarrow> iconHash s1 y = iconHash s y" "\<forall>a \<in> set (bs x). deref s1 a = None"
      "\<forall>b. b \<notin> set (bs x) \<longrightarrow> deref s1 b = deref s b"
    by blast
  have dx: "distinct xs" "x \<notin> set xs" using Cons.prems(1) by auto
  have inv: "\<forall>y \<in> set xs. chain s1 None (iconHash s1 y) (bs y) \<and> distinct (bs y)
       \<and> (\<forall>z \<in> set xs. y \<noteq> z \<longrightarrow> set (bs y) \<inter> set (bs z) = {})"
  proof
    fix y assume y: "y \<in> set xs"
    then have yx: "y \<noteq> x" using dx by auto
    have disj: "set (bs y) \<inter> set (bs x) = {}" using Cons.prems(2) y yx by auto
    then have "\<forall>a \<in> set (bs y). deref s1 a = deref s a" using s1(5) by auto
    then have "chain s1 None (iconHash s y) (bs y) = chain s None (iconHash s y) (bs y)"
      by (rule chain_frame)
    then have "chain s1 None (iconHash s1 y) (bs y)" using s1(3) yx Cons.prems(2) y by simp
    then show "chain s1 None (iconHash s1 y) (bs y) \<and> distinct (bs y)
       \<and> (\<forall>z \<in> set xs. y \<noteq> z \<longrightarrow> set (bs y) \<inter> set (bs z) = {})"
      using Cons.prems(2) y by auto
  qed
  from Cons.IH [OF dx(1) inv] obtain s' where
    s': "ShutdownIcons_for xs s1 = Some s'" "\<forall>y \<in> set xs. iconHash s' y = None"
      "\<forall>y \<in> set xs. \<forall>a \<in> set (bs y). deref s' a = None"
      "\<forall>y. y \<notin> set xs \<longrightarrow> iconHash s' y = iconHash s1 y"
      "\<forall>b. (\<forall>y \<in> set xs. b \<notin> set (bs y)) \<longrightarrow> deref s' b = deref s1 b"
    by blast
  have run: "ShutdownIcons_for (x # xs) s = Some s'" using s1(1) s'(1) by simp
  have "\<forall>a \<in> set (bs x). deref s' a = None"
  proof
    fix a assume a: "a \<in> set (bs x)"
    have "\<forall>y \<in> set xs. a \<notin> set (bs y)" using Cons.prems(2) a dx(2) by auto
    then show "deref s' a = None" using s'(5) s1(4) a by simp
  qed
  moreover have "\<forall>b. (\<forall>y \<in> set (x # xs). b \<notin> set (bs y)) \<longrightarrow> deref s' b = deref s b"
    using s'(5) s1(5) by simp
  moreover have "\<forall>y. y \<notin> set (x # xs) \<longrightarrow> iconHash s' y = iconHash s y"
    using s'(4) s1(3) by simp
  moreover have "\<forall>y \<in> set (x # xs). iconHash s' y = None"
  proof
    fix y assume "y \<in> set (x # xs)"
    then consider "y = x" | "y \<in> set xs" by auto
    then show "iconHash s' y = None"
    proof cases
      case 1
      then show ?thesis using s'(4) dx(2) s1(2) by simp
    next
      case 2
      then show ?thesis using s'(2) by simp
    qed
  qed
  ultimately show ?case using run s'(3) by auto
qed

lemma DestroyIcon_named:
  "deref s a = Some ic \<Longrightarrow> name ic \<noteq> None \<Longrightarrow> DestroyIcon (Some (Heap a)) s = Some s"
  by (auto simp: DestroyIcon_def name_of_def)

lemma update_icon_valid:
  assumes "deref s q \<noteq> None"
  shows "\<exists>s'. update_icon q f s = Some s'
        \<and> (\<forall>b. (deref s' b = None) = (deref s b = None))
        \<and> (\<forall>b. b \<noteq> q \<longrightarrow> deref s' b = deref s b)
        \<and> deref s' q = map_option f (deref s q)"
proof -
  obtain n where n: "deref s q = Some n" using assms by auto
  show ?thesis using update_icon_eq [OF n, of f] deref_store [OF assms] n by auto
qed

lemma DoDestroyIcon_releases:
  assumes ic: "deref s a = Some ic"
    and links: "\<forall>q. icon_prev ic = Some q \<or> icon_next ic = Some q \<longrightarrow> deref s q \<noteq> None"
  shows "\<exists>s'. DoDestroyIcon x (Some (Heap a)) s = Some s' \<and> deref s' a = None
            \<and> (\<forall>b. b \<noteq> a \<longrightarrow> (deref s' b = None) = (deref s b = None))"
proof -
  define s1 where "s1 = s\<lparr>display := fold free_scaled (concat (map nodes (images ic))) (display s)\<rparr>"
  have d1: "deref s1 b = deref s b" for b by (simp add: s1_def)
  have "\<exists>s2. (case icon_prev ic of
                 Some q \<Rightarrow> update_icon q (\<lambda>n. n\<lparr>icon_next := icon_next ic\<rparr>) s1
               | None \<Rightarrow> Some (s1\<lparr>iconHash := (iconHash s1)(x := icon_next ic)\<rparr>)) = Some s2
          \<and> (\<forall>b. (deref s2 b = None) = (deref s b = None))
          \<and> (\<exists>ic2. deref s2 a = Some ic2 \<and> icon_next ic2 = icon_next ic)"
  proof (cases "icon_prev ic")
    case None
    then show ?thesis using ic d1 by simp
  next
    case (Some q)
    then have "deref s1 q \<noteq> None" using links d1 by simp
    from update_icon_valid [OF this, of "\<lambda>n. n\<lparr>icon_next := icon_next ic\<rparr>"]
    obtain s2 where s2: "update_icon q (\<lambda>n. n\<lparr>icon_next := icon_next ic\<rparr>) s1 = Some s2"
      "\<forall>b. (deref s2 b = None) = (deref s1 b = None)"
      "\<forall>b. b \<noteq> q \<longrightarrow> deref s2 b = deref s1 b"
      "deref s2 q = map_option (\<lambda>n. n\<lparr>icon_next := icon_next ic\<rparr>) (deref s1 q)"
      by blast
    have "\<exists>ic2. deref s2 a = Some ic2 \<and> icon_next ic2 = icon_next ic"
      using s2(3) s2(4) ic d1 by (cases "a = q") auto
    then show ?thesis using Some s2 d1 by simp
  qed
  then obtain s2 ic2 where s2: "(case icon_prev ic of
                 Some q \<Rightarrow> update_icon q (\<lambda>n. n\<lparr>icon_next := icon_next ic\<rparr>) s1
               | None \<Rightarrow> Some (s1\<lparr>iconHash := (iconHash s1)(x := icon_next ic)\<rparr>)) = Some s2"
      "\<forall>b. (deref s2 b = None) = (deref s b = None)"
      "deref s2 a = Some ic2" "icon_next ic2 = icon_next ic"
    by blast
  have "\<exists>s3. (case icon_next ic2 of
                 Some q \<Rightarrow> update_icon q (\<lambda>n. n\<lparr>icon_prev := icon_prev ic2\<rparr>) s2
               | None \<Rightarrow> Some s2) = Some s3
          \<and> (\<forall>b. (deref s3 b = None) = (deref s b = None))"
  proof (cases "icon_next ic2")
    case None
    then show ?thesis using s2 by simp
  next
    case (Some q)
    then have "deref s2 q \<noteq> None" using links s2 by simp
    from update_icon_valid [OF this, of "\<lambda>n. n\<lparr>icon_prev := icon_prev ic2\<rparr>"]
    show ?thesis using Some s2(2) by auto
  qed
  then obtain s3 where s3: "(case icon_next ic2 of
                 Some q \<Rightarrow> update_icon q (\<lambda>n. n\<lparr>icon_prev := icon_prev ic2\<rparr>) s2
               | None \<Rightarrow> Some s2) = Some s3"
      "\<forall>b. (deref s3 b = None) = (deref s b = None)"
    by blast
  have run: "DoDestroyIcon x (Some (Heap a)) s = Some (Release_icon a s3)"
    unfolding DoDestroyIcon_Heap [OF ic] s1_def [symmetric]
    by (simp only: s2(1) s2(3) s3(1) Option.bind.simps)
  have "deref (Release_icon a s3) a = None" by simp
  moreover have "(deref (Release_icon a s3) b = None) = (deref s b = None)" if "b \<noteq> a" for b
    using s3(2) that by simp
  ultimately show ?thesis using run by auto
qed

lemma DestroyIcon_unnamed:
  assumes ic: "deref s a = Some ic" and n: "name ic = None"
    and links: "\<forall>q. icon_prev ic = Some q \<or> icon_next ic = Some q \<longrightarrow> deref s q \<noteq> None"
  shows "\<exists>s'. DestroyIcon (Some (Heap a)) s = Some s' \<and> deref s' a = None
            \<and> (\<forall>b. b \<noteq> a \<longrightarrow> (deref s' b = None) = (deref s b = None))"
  using DoDestroyIcon_releases [OF ic links, of 0] ic n
  by (simp add: DestroyIcon_def name_of_def)

text \<open>
  Claim C4. \<open>DestroyIcon\<close> on an allocated icon without a name (whose \<open>prev\<close> and
  \<open>next\<close> pointers, if any, point to allocated nodes; both are \<open>NULL\<close> for an icon that
  was never inserted) returns with the icon released. On an allocated icon with a name it
  changes nothing, as on \<open>NULL\<close> and on the static \<open>emptyIcon\<close>. \<open>ShutdownIcons\<close>
  on a well-formed hash table returns with every bucket empty and every icon of the table
  released, and with every other address as it was.
\<close>

theorem DestroyIcon_releases_unnamed_only:
  "(deref s a = Some ic \<and> name ic = None
      \<and> (\<forall>q. icon_prev ic = Some q \<or> icon_next ic = Some q \<longrightarrow> deref s q \<noteq> None) \<longrightarrow>
      (\<exists>s'. DestroyIcon (Some (Heap a)) s = Some s' \<and> deref s' a = None))
   \<and> (deref s a = Some ic \<and> name ic \<noteq> None \<longrightarrow> DestroyIcon (Some (Heap a)) s = Some s)
   \<and> DestroyIcon None s = Some s
   \<and> DestroyIcon (Some EmptyIcon) s = Some s
   \<and> (cache_wf s bs \<longrightarrow>
        (\<exists>s'. ShutdownIcons s = Some s'
           \<and> (\<forall>x < HASH_SIZE. iconHash s' x = None \<and> (\<forall>b \<in> set (bs x). deref s' b = None))
           \<and> (\<forall>b. (\<forall>x < HASH_SIZE. b \<notin> set (bs x)) \<longrightarrow> deref s' b = deref s b)))"
proof (intro conjI impI)
  assume "deref s a = Some ic \<and> name ic = None
      \<and> (\<forall>q. icon_prev ic = Some q \<or> icon_next ic = Some q \<longrightarrow> deref s q \<noteq> None)"
  then show "\<exists>s'. DestroyIcon (Some (Heap a)) s = Some s' \<and> deref s' a = None"
    using DestroyIcon_unnamed [of s a ic] by blast
next
  assume "deref s a = Some ic \<and> name ic \<noteq> None"
  then show "DestroyIcon (Some (Heap a)) s = Some s"
    using DestroyIcon_named [of s a ic] by blast
next
  show "DestroyIcon None s = Some s" by (simp add: DestroyIcon_def)
next
  show "DestroyIcon (Some EmptyIcon) s = Some s"
    by (simp add: DestroyIcon_def name_of_def DoDestroyIcon_def)
next
  assume wf: "cache_wf s bs"
  have inv: "\<forall>x \<in> set [0 ..< HASH_SIZE]. chain s None (iconHash s x) (bs x) \<and> distinct (bs x)
       \<and> (\<forall>y \<in> set [0 ..< HASH_SIZE]. x \<noteq> y \<longrightarrow> set (bs x) \<inter> set (bs y) = {})"
    using wf by (simp add: cache_wf_def)
  from ShutdownIcons_for_chains [OF _ inv] obtain s' where
    s': "ShutdownIcons_for [0 ..< HASH_SIZE] s = Some s'"
      "\<forall>x \<in> set [0 ..< HASH_SIZE]. iconHash s' x = None"
      "\<forall>x \<in> set [0 ..< HASH_SIZE]. \<forall>a \<in> set (bs x). deref s' a = None"
      "\<forall>b. (\<forall>x \<in> set [0 ..< HASH_SIZE]. b \<notin> set (bs x)) \<longrightarrow> deref s' b = deref s b"
    by auto
  show "\<exists>s'. ShutdownIcons s = Some s'
           \<and> (\<forall>x < HASH_SIZE. iconHash s' x = None \<and> (\<forall>b \<in> set (bs x). deref s' b = None))
           \<and> (\<forall>b. (\<forall>x < HASH_SIZE. b \<notin> set (bs x)) \<longrightarrow> deref s' b = deref s b)"
    using s' by (intro exI [of _ s']) (simp add: ShutdownIcons_def)
qed


lemma cache_wf_xterm: "cache_wf xterm_loaded xterm_buckets"
  by (simp add: cache_wf_def xterm_buckets_def xterm_loaded_def deref_def xterm_icon_def)

theorem DestroyIcon_releases_unnamed_only_witness:
  "cache_wf xterm_loaded xterm_buckets
   \<and> (\<exists>s'. ShutdownIcons xterm_loaded = Some s' \<and> iconHash s' 0 = None \<and> deref s' 0 = None)
   \<and> deref with_client_icon 0 = Some xterm_icon
   \<and> DestroyIcon (Some (Heap 0)) with_client_icon = Some with_client_icon
   \<and> deref with_client_icon 1 = Some client_icon
   \<and> (\<exists>s'. DestroyIcon (Some (Heap 1)) with_client_icon = Some s' \<and> deref s' 1 = None)"
proof -
  have d0: "deref with_client_icon 0 = Some xterm_icon"
    and d1: "deref with_client_icon 1 = Some client_icon"
    by (simp_all add: with_client_icon_def deref_def)
  have n0: "name xterm_icon \<noteq> None" and n1: "name client_icon = None"
    and l1: "\<forall>q. icon_prev client_icon = Some q \<or> icon_next client_icon = Some q \<longrightarrow>
                deref with_client_icon q \<noteq> None"
    by (simp_all add: xterm_icon_def client_icon_def)
  have z: "0 < HASH_SIZE" and m: "0 \<in> set (xterm_buckets 0)"
    by (simp_all add: HASH_SIZE_def xterm_buckets_def)
  show ?thesis
    using cache_wf_xterm d0 d1 n0 n1 l1 z m
      DestroyIcon_releases_unnamed_only [of with_client_icon 0 xterm_icon xterm_buckets]
      DestroyIcon_releases_unnamed_only [of with_client_icon 1 client_icon xterm_buckets]
      DestroyIcon_releases_unnamed_only [of xterm_loaded 0 xterm_icon xterm_buckets]
    by blast
qed

subsection \<open>Loads return on a well-formed hash table\<close>

lemma GetHash_bound: "GetHash str < HASH_SIZE"
proof (cases str)
  case None
  then show ?thesis by (simp add: GetHash_def HASH_SIZE_def)
next
  case (Some cs)
  have "fold (\<lambda>c hash. GetHash_step hash c) cs 0 AND 127 \<le> (127 :: 32 word)"
    by (rule word_and_le1)
  then have "unat (fold (\<lambda>c hash. GetHash_step hash c) cs 0 AND 127) \<le> unat (127 :: 32 word)"
    by (simp add: word_le_nat_alt)
  then show ?thesis using Some by (simp add: GetHash_def HASH_SIZE_def)
qed

lemma FindIcon_walk_chain:
  "chain s pv p as \<Longrightarrow> \<exists>r. FindIcon_walk s nm p = Some r"
proof (induction as arbitrary: pv p)
  case Nil
  then show ?case by simp
next
  case (Cons a as)
  from Cons.prems obtain ic n where ic: "p = Some a" "deref s a = Some ic" "name ic = Some n"
    "chain s (Some a) (icon_next ic) as"
    by (auto split: option.splits)
  show ?case
    using FindIcon_walk_Some [OF ic(2) ic(3), of nm] Cons.IH [OF ic(4)] ic(1) by auto
qed

lemma FindIcon_returns: "cache_wf s bs \<Longrightarrow> \<exists>r. FindIcon s nm = Some r"
  using GetHash_bound [of "Some nm"] FindIcon_walk_chain [of s None _ "bs (GetHash (Some nm))" nm]
  by (auto simp: cache_wf_def FindIcon_def)

lemma deref_brk [simp]: "deref s (brk s) = None"
  by (simp add: deref_def)

text \<open>What storing a new icon does to the store, when the head of its bucket is allocated.\<close>

lemma CreateIconFromFile_stores:
  assumes f: "FindIcon s fn = Some None" and l: "LoadImage s fn \<noteq> []"
    and hd: "\<forall>h. iconHash s (GetHash (Some fn)) = Some h \<longrightarrow> deref s h \<noteq> None"
  shows "\<exists>s'. CreateIconFromFile (Some fn) True pa s = Some (Some (Heap (brk s)), s')
     \<and> iconHash s' = (iconHash s)(GetHash (Some fn) := Some (brk s))
     \<and> deref s' (brk s) =
          Some \<lparr>name = Some fn, images = LoadImage s fn,
                icon_next = iconHash s (GetHash (Some fn)), icon_prev = None,
                preserveAspect = pa\<rparr>
     \<and> (\<forall>b. b \<noteq> brk s \<longrightarrow>
           deref s' b =
             map_option (\<lambda>n. if iconHash s (GetHash (Some fn)) = Some b
                              then n\<lparr>icon_prev := Some (brk s)\<rparr> else n) (deref s b))"
proof (cases "iconHash s (GetHash (Some fn))")
  case None
  show ?thesis using f l None
    by (auto simp: CreateIconFromFile_def CreateIcon_def InsertIcon_def Let_def
          update_icon_def deref_def option.map_ident split: if_splits)
next
  case (Some h)
  then obtain hic where hic: "deref s h = Some hic" using hd by auto
  then have hb: "h < brk s" "icons s h = Some hic" by (auto simp: deref_def split: if_splits)
  show ?thesis using f l Some hb
    by (auto simp: CreateIconFromFile_def CreateIcon_def InsertIcon_def Let_def
          update_icon_def deref_def option.map_ident split: if_splits option.splits)
qed


lemma chain_allocated: "chain s pv p as \<Longrightarrow> brk s \<notin> set as"
  using chain_valid [of s pv p as "brk s"] by auto

lemma chain_head: "chain s pv (Some h) as \<Longrightarrow> h \<in> set as"
  by (cases as) auto

text \<open>A chain stays a chain when only the \<open>prev\<close> pointer of its head is redirected.\<close>

lemma chain_new_prev:
  assumes c: "chain s pv p as" and d: "distinct as"
    and u: "\<forall>b \<in> set as. deref s' b =
              map_option (\<lambda>n. if p = Some b then n\<lparr>icon_prev := pv'\<rparr> else n) (deref s b)"
  shows "chain s' pv' p as"
proof (cases as)
  case Nil
  then show ?thesis using c by simp
next
  case (Cons b bs)
  then obtain ic where ic: "p = Some b" "deref s b = Some ic" "name ic \<noteq> None"
    "chain s (Some b) (icon_next ic) bs"
    using c by (auto split: option.splits)
  have nb: "b \<notin> set bs" using d Cons by simp
  have "\<forall>c \<in> set bs. deref s' c = deref s c"
  proof
    fix c assume cb: "c \<in> set bs"
    then have "c \<noteq> b" using nb by auto
    then show "deref s' c = deref s c" using u cb Cons ic(1) by (simp add: option.map_ident)
  qed
  then have "chain s' (Some b) (icon_next ic) bs = chain s (Some b) (icon_next ic) bs"
    by (rule chain_frame)
  moreover have "deref s' b = Some (ic\<lparr>icon_prev := pv'\<rparr>)" using u Cons ic by simp
  ultimately show ?thesis using Cons ic by simp
qed

lemma CreateIconFromFile_wf_new:
  assumes wf: "cache_wf s bs" and f: "FindIcon s fn = Some None" and l: "LoadImage s fn \<noteq> []"
  shows "\<exists>s'. CreateIconFromFile (Some fn) True pa s = Some (Some (Heap (brk s)), s')
           \<and> cache_wf s' (bs(GetHash (Some fn) := brk s # bs (GetHash (Some fn))))"
proof -
  let ?i = "GetHash (Some fn)"
  have ib: "?i < HASH_SIZE" by (rule GetHash_bound)
  have ch: "chain s None (iconHash s x) (bs x)" and di: "distinct (bs x)"
    and dj: "y < HASH_SIZE \<Longrightarrow> x \<noteq> y \<Longrightarrow> set (bs x) \<inter> set (bs y) = {}"
    if "x < HASH_SIZE" for x y
    using wf that by (auto simp: cache_wf_def)
  have hd: "\<forall>h. iconHash s ?i = Some h \<longrightarrow> deref s h \<noteq> None"
    using ch [OF ib] chain_head chain_valid by metis
  from CreateIconFromFile_stores [OF f l hd, of pa] obtain s' where
    s': "CreateIconFromFile (Some fn) True pa s = Some (Some (Heap (brk s)), s')"
      "iconHash s' = (iconHash s)(?i := Some (brk s))"
      "deref s' (brk s) =
          Some \<lparr>name = Some fn, images = LoadImage s fn,
                icon_next = iconHash s ?i, icon_prev = None, preserveAspect = pa\<rparr>"
      "\<forall>b. b \<noteq> brk s \<longrightarrow>
           deref s' b =
             map_option (\<lambda>n. if iconHash s ?i = Some b
                              then n\<lparr>icon_prev := Some (brk s)\<rparr> else n) (deref s b)"
    by blast
  have fresh: "brk s \<notin> set (bs x)" if "x < HASH_SIZE" for x
    using chain_allocated [OF ch [OF that]] .
  have own: "chain s' None (iconHash s' ?i) (brk s # bs ?i)"
  proof -
    have "\<forall>b \<in> set (bs ?i). deref s' b =
              map_option (\<lambda>n. if iconHash s ?i = Some b
                               then n\<lparr>icon_prev := Some (brk s)\<rparr> else n) (deref s b)"
    proof
      fix b assume "b \<in> set (bs ?i)"
      then have "b \<noteq> brk s" using fresh [OF ib] by auto
      then show "deref s' b =
              map_option (\<lambda>n. if iconHash s ?i = Some b
                               then n\<lparr>icon_prev := Some (brk s)\<rparr> else n) (deref s b)"
        using s'(4) by blast
    qed
    then have "chain s' (Some (brk s)) (iconHash s ?i) (bs ?i)"
      using chain_new_prev [OF ch [OF ib] di [OF ib]] by blast
    then show ?thesis using s'(2) s'(3) by simp
  qed
  have other: "chain s' None (iconHash s' x) (bs x)" if x: "x < HASH_SIZE" "x \<noteq> ?i" for x
  proof -
    have "\<forall>b \<in> set (bs x). deref s' b = deref s b"
    proof
      fix b assume b: "b \<in> set (bs x)"
      have "b \<noteq> brk s" using fresh [OF x(1)] b by auto
      moreover have "iconHash s ?i \<noteq> Some b"
      proof
        assume "iconHash s ?i = Some b"
        then have "b \<in> set (bs ?i)" using ch [OF ib] chain_head by metis
        then show False using dj [OF x(1) ib x(2)] b by auto
      qed
      ultimately show "deref s' b = deref s b" using s'(4) by (simp add: option.map_ident)
    qed
    then have "chain s' None (iconHash s x) (bs x) = chain s None (iconHash s x) (bs x)"
      by (rule chain_frame)
    then show ?thesis using ch [OF x(1)] s'(2) x(2) by simp
  qed
  have "cache_wf s' (bs(?i := brk s # bs ?i))"
    unfolding cache_wf_def
  proof (intro ballI conjI impI)
    fix x assume "x \<in> set [0 ..< HASH_SIZE]"
    then have x: "x < HASH_SIZE" by simp
    show "chain s' None (iconHash s' x) ((bs(?i := brk s # bs ?i)) x)"
      using own other [OF x] by (cases "x = ?i") simp_all
    show "distinct ((bs(?i := brk s # bs ?i)) x)"
      using di [OF x] fresh [OF x] by (cases "x = ?i") simp_all
    fix y assume "y \<in> set [0 ..< HASH_SIZE]" and xy: "x \<noteq> y"
    then have y: "y < HASH_SIZE" by simp
    show "set ((bs(?i := brk s # bs ?i)) x) \<inter> set ((bs(?i := brk s # bs ?i)) y) = {}"
      using dj [OF x y xy] fresh [OF x] fresh [OF y] xy
      by (cases "x = ?i"; cases "y = ?i") auto
  qed
  then show ?thesis using s'(1) by blast
qed

lemma CreateIconFromFile_wf_unsaved:
  assumes wf: "cache_wf s bs" and f: "FindIcon s fn = Some None" and l: "LoadImage s fn \<noteq> []"
  shows "\<exists>s'. CreateIconFromFile (Some fn) False pa s = Some (Some (Heap (brk s)), s')
           \<and> cache_wf s' bs"
proof -
  obtain s' where c: "CreateIconFromFile (Some fn) False pa s = Some (Some (Heap (brk s)), s')"
    using f l by (simp add: CreateIconFromFile_def CreateIcon_def Let_def update_icon_def deref_def)
  note u = CreateIconFromFile_unsaved [OF f l c]
  have "cache_wf s' bs"
    unfolding cache_wf_def
  proof (intro ballI conjI impI)
    fix x assume x: "x \<in> set [0 ..< HASH_SIZE]"
    have ch: "chain s None (iconHash s x) (bs x)" using wf x by (simp add: cache_wf_def)
    have "\<forall>a \<in> set (bs x). deref s' a = deref s a"
    proof
      fix a assume "a \<in> set (bs x)"
      then have "a \<noteq> brk s" using chain_allocated [OF ch] by auto
      then show "deref s' a = deref s a" using u by blast
    qed
    then have "chain s' None (iconHash s x) (bs x) = chain s None (iconHash s x) (bs x)"
      by (rule chain_frame)
    then show "chain s' None (iconHash s' x) (bs x)" using ch u by simp
    show "distinct (bs x)" using wf x by (simp add: cache_wf_def)
    fix y assume "y \<in> set [0 ..< HASH_SIZE]" and "x \<noteq> y"
    then show "set (bs x) \<inter> set (bs y) = {}" using wf x by (simp add: cache_wf_def)
  qed
  then show ?thesis using c by blast
qed

lemma CreateIconFromFile_returns:
  assumes wf: "cache_wf s bs"
  shows "\<exists>r s' bs'. CreateIconFromFile fileName sv pa s = Some (r, s') \<and> cache_wf s' bs'"
proof (cases fileName)
  case None
  then show ?thesis using wf by (auto simp: CreateIconFromFile_def)
next
  case (Some fn)
  from FindIcon_returns [OF wf, of fn] obtain found where f: "FindIcon s fn = Some found" by blast
  show ?thesis
  proof (cases found)
    case (Some b)
    then show ?thesis using f wf \<open>fileName = Some fn\<close> CreateIconFromFile_hit [of s fn b sv pa]
      by blast
  next
    case None
    show ?thesis
    proof (cases "LoadImage s fn = []")
      case True
      then show ?thesis
        using f None wf \<open>fileName = Some fn\<close> CreateIconFromFile_miss [of s fn sv pa] by blast
    next
      case False
      show ?thesis
      proof (cases sv)
        case True
        from CreateIconFromFile_wf_new [OF wf f [unfolded None] False, of pa]
        show ?thesis using \<open>fileName = Some fn\<close> True by auto
      next
        case sf: False
        from CreateIconFromFile_wf_unsaved [OF wf f [unfolded None] False, of pa]
        show ?thesis using \<open>fileName = Some fn\<close> sf by auto
      qed
    qed
  qed
qed

lemma Helper_loop_returns:
  "cache_wf s bs \<Longrightarrow>
   \<exists>r s' bs'. LoadNamedIconHelper_loop temp exts sv pa s = Some (r, s') \<and> cache_wf s' bs'"
proof (induction exts arbitrary: s bs)
  case Nil
  then show ?case by auto
next
  case (Cons ext exts)
  from CreateIconFromFile_returns [OF Cons.prems, of "Some (temp @ ext)" sv pa]
  obtain r0 s0 bs0 where
    c: "CreateIconFromFile (Some (temp @ ext)) sv pa s = Some (r0, s0)" "cache_wf s0 bs0"
    by blast
  show ?case
  proof (cases "r0 = None")
    case True
    from Cons.IH [OF c(2)] show ?thesis using c(1) True by simp
  next
    case False
    then show ?thesis using c by auto
  qed
qed

lemma LoadNamedIcon_loop_returns:
  "cache_wf s bs \<Longrightarrow>
   \<exists>r s' bs'. LoadNamedIcon_loop nm ips sv pa s = Some (r, s') \<and> cache_wf s' bs'"
proof (induction ips arbitrary: s bs)
  case Nil
  then show ?case by auto
next
  case (Cons ip ips)
  from Helper_loop_returns [OF Cons.prems, of "ip @ nm" ICON_EXTENSIONS sv pa]
  obtain r0 s0 bs0 where
    c: "LoadNamedIconHelper nm ip sv pa s = Some (r0, s0)" "cache_wf s0 bs0"
    by (auto simp: LoadNamedIconHelper_def)
  show ?case
  proof (cases "r0 = None")
    case True
    from Cons.IH [OF c(2)] show ?thesis using c(1) True by simp
  next
    case False
    then show ?thesis using c by auto
  qed
qed

lemma LoadNamedIcon_returns:
  assumes wf: "cache_wf s bs"
  shows "\<exists>r s' bs'. LoadNamedIcon nm sv pa s = Some (r, s') \<and> cache_wf s' bs'"
proof (cases nm)
  case Nil
  then show ?thesis using wf by (auto simp: LoadNamedIcon_def)
next
  case (Cons c cs)
  show ?thesis
  proof (cases "c = CHR ''/''")
    case True
    then show ?thesis
      using CreateIconFromFile_returns [OF wf, of "Some nm" sv pa] Cons
      by (simp add: LoadNamedIcon_def)
  next
    case False
    then show ?thesis
      using LoadNamedIcon_loop_returns [OF wf, of nm "iconPaths s" sv pa] Cons
      by (simp add: LoadNamedIcon_def)
  qed
qed

lemma LoadNamedIcon_seq_returns:
  "cache_wf s bs \<Longrightarrow>
   \<exists>rs s' bs'. LoadNamedIcon_seq ops s = Some (rs, s') \<and> cache_wf s' bs'"
proof (induction ops arbitrary: s bs)
  case Nil
  then show ?case by auto
next
  case (Cons op ops)
  obtain nm sv pa where op: "op = (nm, sv, pa)" by (cases op)
  from LoadNamedIcon_returns [OF Cons.prems, of nm sv pa]
  obtain r s1 bs1 where l: "LoadNamedIcon nm sv pa s = Some (r, s1)" "cache_wf s1 bs1"
    by blast
  from Cons.IH [OF l(2)] obtain rs s' bs' where
    rest: "LoadNamedIcon_seq ops s1 = Some (rs, s')" "cache_wf s' bs'" by blast
  have "LoadNamedIcon_seq (op # ops) s = Some (r # rs, s')" using op l(1) rest(1) by simp
  then show ?case using rest(2) by blast
qed

text \<open>
  Claim C1. Loads by name that store their result (\<open>save\<close> true) share one record per
  file name.

  \<^item> When \<open>LoadNamedIcon\<close> (the empty name, an absolute name, or a name resolved along
    the search paths and the extensions) or \<open>CreateIconFromFile\<close> has returned the
    pointer \<open>r\<close>, the same load made again, at once or after any sequence of other
    loads (of any names, stored or not), returns the same pointer and leaves the state as
    it is: nothing is allocated and nothing is written.
  \<^item> The record returned is the one stored under the name: it carries the file name that
    was loaded (for \<open>LoadNamedIcon\<close>, the name itself or a search path followed by the
    name and an extension), and \<open>FindIcon\<close> on that file name returns its address.
  \<^item> A load, and a sequence of loads, does return when the hash table is well formed, and
    leaves it well formed; the table that \<open>InitializeIcons\<close> sets up is well formed.
\<close>

theorem LoadNamedIcon_twice:
  "(LoadNamedIcon nm True pa s = Some (r, s1) \<and> LoadNamedIcon_seq ops s1 = Some (rs, s2) \<longrightarrow>
      LoadNamedIcon nm True pa' s2 = Some (r, s2))
   \<and> (CreateIconFromFile fileName True pa s = Some (r, s1)
        \<and> LoadNamedIcon_seq ops s1 = Some (rs, s2) \<longrightarrow>
      CreateIconFromFile fileName True pa' s2 = Some (r, s2))
   \<and> (CreateIconFromFile (Some fn) True pa s = Some (Some (Heap a), s1) \<longrightarrow>
        (\<exists>ic. deref s1 a = Some ic \<and> name ic = Some fn) \<and> FindIcon s1 fn = Some (Some a))
   \<and> (LoadNamedIcon nm True pa s = Some (Some (Heap a), s1) \<longrightarrow>
        (\<exists>f ic. (if hd nm = CHR ''/'' then f = nm
                  else \<exists>ip \<in> set (iconPaths s). \<exists>ext \<in> set ICON_EXTENSIONS.
                         f = ip @ nm @ ext)
           \<and> deref s1 a = Some ic \<and> name ic = Some f \<and> FindIcon s1 f = Some (Some a)))
   \<and> (cache_wf s bs \<longrightarrow>
        (\<exists>r s' bs'. LoadNamedIcon nm True pa s = Some (r, s') \<and> cache_wf s' bs'))
   \<and> (cache_wf s bs \<longrightarrow>
        (\<exists>rs s' bs'. LoadNamedIcon_seq ops s = Some (rs, s') \<and> cache_wf s' bs'))
   \<and> cache_wf (InitializeIcons s) (\<lambda>x. [])"
proof (intro conjI impI)
  show "cache_wf (InitializeIcons s) (\<lambda>x. [])"
    by (simp add: cache_wf_def InitializeIcons_def)
next
  assume "cache_wf s bs"
  then show "\<exists>rs s' bs'. LoadNamedIcon_seq ops s = Some (rs, s') \<and> cache_wf s' bs'"
    by (rule LoadNamedIcon_seq_returns)
next
  assume "cache_wf s bs"
  then show "\<exists>r s' bs'. LoadNamedIcon nm True pa s = Some (r, s') \<and> cache_wf s' bs'"
    by (rule LoadNamedIcon_returns)
next
  assume "LoadNamedIcon nm True pa s = Some (Some (Heap a), s1)"
  then show "\<exists>f ic. (if hd nm = CHR ''/'' then f = nm
                  else \<exists>ip \<in> set (iconPaths s). \<exists>ext \<in> set ICON_EXTENSIONS.
                         f = ip @ nm @ ext)
           \<and> deref s1 a = Some ic \<and> name ic = Some f \<and> FindIcon s1 f = Some (Some a)"
    by (rule LoadNamedIcon_named)
next
  assume c: "CreateIconFromFile (Some fn) True pa s = Some (Some (Heap a), s1)"
  show "\<exists>ic. deref s1 a = Some ic \<and> name ic = Some fn"
    using CreateIconFromFile_named [OF c] by simp
  show "FindIcon s1 fn = Some (Some a)"
    using CreateIconFromFile_named [OF c] by simp
next
  assume a: "CreateIconFromFile fileName True pa s = Some (r, s1)
        \<and> LoadNamedIcon_seq ops s1 = Some (rs, s2)"
  then have g: "cache_grows s1 s2" using LoadNamedIcon_seq_grows by blast
  show "CreateIconFromFile fileName True pa' s2 = Some (r, s2)"
  proof (cases fileName)
    case None
    then show ?thesis using a by (simp add: CreateIconFromFile_def)
  next
    case (Some fn')
    then show ?thesis using CreateIconFromFile_replay [OF _ g, of fn' pa s r True pa'] a by simp
  qed
next
  assume a: "LoadNamedIcon nm True pa s = Some (r, s1) \<and> LoadNamedIcon_seq ops s1 = Some (rs, s2)"
  then have g: "cache_grows s1 s2" using LoadNamedIcon_seq_grows by blast
  show "LoadNamedIcon nm True pa' s2 = Some (r, s2)"
    using LoadNamedIcon_replay [of nm pa s r s1 True pa'] a g by blast
qed

lemma hash_aa: "GetHash (Some ''/aa'') = 79"
  by (simp add: GetHash_def GetHash_step_def char_to_unsigned_def)

lemma hash_ee: "GetHash (Some ''/ee'') = 79"
  by (simp add: GetHash_def GetHash_step_def char_to_unsigned_def)

lemmas collide_eval =
  LoadNamedIcon_def CreateIconFromFile_def FindIcon_def collide_start_def InitializeIcons_def
  collide_files_def CreateIcon_def update_icon_def deref_def InsertIcon_def hash_aa hash_ee
  aa_loaded_def aa_ee_loaded_def FindIcon_walk_Some

theorem LoadNamedIcon_twice_witness:
  "LoadNamedIcon ''/aa'' True True collide_start = Some (Some (Heap 0), aa_loaded)
   \<and> LoadNamedIcon_seq [(''/ee'', True, True)] aa_loaded = Some ([Some (Heap 1)], aa_ee_loaded)
   \<and> LoadNamedIcon ''/aa'' True False aa_ee_loaded = Some (Some (Heap 0), aa_ee_loaded)
   \<and> map_option name (deref aa_loaded 0) = Some (Some ''/aa'')
   \<and> FindIcon aa_loaded ''/aa'' = Some (Some 0)
   \<and> GetHash (Some ''/ee'') = GetHash (Some ''/aa'')
   \<and> LoadNamedIcon ''/ee'' True True aa_ee_loaded = Some (Some (Heap 1), aa_ee_loaded)
   \<and> map_option name (deref aa_ee_loaded 1) = Some (Some ''/ee'')
   \<and> LoadNamedIcon ''xterm'' True True icons_start = Some (Some (Heap 0), xterm_loaded)
   \<and> LoadNamedIcon ''xterm'' True True xterm_loaded = Some (Some (Heap 0), xterm_loaded)
   \<and> map_option name (deref xterm_loaded 0) = Some (Some ''/usr/share/icons/xterm.png'')
   \<and> CreateIconFromFile (Some ''/usr/share/icons/xterm.png'') True True xterm_loaded =
       Some (Some (Heap 0), xterm_loaded)"
proof -
  have first: "LoadNamedIcon ''/aa'' True True collide_start = Some (Some (Heap 0), aa_loaded)"
    by (simp add: collide_eval)
  have second: "LoadNamedIcon ''/ee'' True True aa_loaded = Some (Some (Heap 1), aa_ee_loaded)"
    by (simp add: collide_eval fun_upd_twist)
  have seq: "LoadNamedIcon_seq [(''/ee'', True, True)] aa_loaded = Some ([Some (Heap 1)], aa_ee_loaded)"
    by (simp add: second)
  have third: "LoadNamedIcon ''/ee'' True True aa_ee_loaded = Some (Some (Heap 1), aa_ee_loaded)"
    by (simp add: collide_eval)
  have xterm: "LoadNamedIcon ''xterm'' True True icons_start = Some (Some (Heap 0), xterm_loaded)"
    by (simp add: icon_eval)
  have direct: "CreateIconFromFile (Some ''/usr/share/icons/xterm.png'') True True icons_start =
      Some (Some (Heap 0), xterm_loaded)"
    by (simp add: icon_eval)
  have nx: "map_option name (deref xterm_loaded 0) = Some (Some ''/usr/share/icons/xterm.png'')"
    by (simp add: icon_eval)
  have none: "LoadNamedIcon_seq [] xterm_loaded = Some ([], xterm_loaded)"
    by simp
  show ?thesis
    using first seq third hash_aa hash_ee xterm direct nx none
      LoadNamedIcon_twice [where nm = "''/aa''" and pa = True and s = collide_start
        and r = "Some (Heap 0)" and ?s1.0 = aa_loaded and ops = "[(''/ee'', True, True)]"
        and rs = "[Some (Heap 1)]" and ?s2.0 = aa_ee_loaded and pa' = False and a = 0
        and fn = "''/aa''"]
      LoadNamedIcon_twice [where nm = "''xterm''" and pa = True and s = icons_start
        and r = "Some (Heap 0)" and ?s1.0 = xterm_loaded and ops = "[]"
        and rs = "[]" and ?s2.0 = xterm_loaded and pa' = True and a = 0
        and fn = "''/usr/share/icons/xterm.png''"
        and fileName = "Some ''/usr/share/icons/xterm.png''"]
    by (auto simp: collide_eval)
qed

end
